theory Spec2Isabelle
  imports Complex_Main "HOL-Library.Signed_Division" "HOL-Library.Log_Nat"
begin

section \<open>JavaScript dates as the calendar functions use them\<close>

text \<open>
  Every \<^verbatim>\<open>Date\<close> that \<^verbatim>\<open>RailwayDateAPI\<close> computes with is a local midnight: it is built
  by \<^verbatim>\<open>new Date(year, month, day)\<close>, normalised by \<^verbatim>\<open>setHours(0, 0, 0, 0)\<close>, or moved by
  \<^verbatim>\<open>setDate\<close> from such a date. A \<^verbatim>\<open>Date\<close> is therefore modelled by its local calendar
  day, counted in days from 1 January 1970 as ECMAScript does (\<^verbatim>\<open>Day(t)\<close> of the local time).
  The getters and the constructor follow the date algorithms of ECMA-262 on the proleptic
  Gregorian calendar. JavaScript numbers are modelled by exact integers and rationals.
  A date whose time value would be more than 8.64e15 milliseconds away from 1970 is an
  Invalid Date in JavaScript. The model has no Invalid Date: \<open>validDate\<close> says that a day
  is inside that range, and the theorems on the start of the railway year assume it of
  the dates that \<^verbatim>\<open>getWeekOneStart\<close> makes.
\<close>

type_synonym Date = int

definition msPerDay :: int where
  "msPerDay = 1000 * 60 * 60 * 24"

definition msPerHour :: int where
  "msPerHour = 1000 * 60 * 60"

definition DayFromYear :: "int \<Rightarrow> int" where
  "DayFromYear y =
     365 * (y - 1970) + (y - 1969) div 4 - (y - 1901) div 100 + (y - 1601) div 400"

definition InLeapYear :: "int \<Rightarrow> bool" where
  "InLeapYear y \<longleftrightarrow> y mod 4 = 0 \<and> (y mod 100 \<noteq> 0 \<or> y mod 400 = 0)"

definition leapDay :: "int \<Rightarrow> int" where
  "leapDay y = (if InLeapYear y then 1 else 0)"

text \<open>The number of days of the year before month \<open>m\<close> (0 = January).\<close>

definition monthStart :: "int \<Rightarrow> int \<Rightarrow> int" where
  "monthStart y m =
     (if m = 0 then 0
      else if m = 1 then 31
      else if m = 2 then 59 + leapDay y
      else if m = 3 then 90 + leapDay y
      else if m = 4 then 120 + leapDay y
      else if m = 5 then 151 + leapDay y
      else if m = 6 then 181 + leapDay y
      else if m = 7 then 212 + leapDay y
      else if m = 8 then 243 + leapDay y
      else if m = 9 then 273 + leapDay y
      else if m = 10 then 304 + leapDay y
      else 334 + leapDay y)"

text \<open>
  ECMAScript's \<^verbatim>\<open>MakeDay\<close>. A month outside 0..11 carries into the year, and a day
  outside the month carries into the neighbouring months.
\<close>

definition MakeDay :: "int \<Rightarrow> int \<Rightarrow> int \<Rightarrow> Date" where
  "MakeDay y m dt =
     (let ym = y + m div 12; mn = m mod 12
      in DayFromYear ym + monthStart ym mn + dt - 1)"

text \<open>
  \<^verbatim>\<open>new Date(year, month, day)\<close>: the constructor reads a year from 0 to 99 as
  1900 + year (\<open>fullYear\<close>), and makes the day with \<^verbatim>\<open>MakeDay\<close>. The result is the day
  that the constructor makes when that day is a valid date (\<open>validDate\<close>, with the time
  zones below); JavaScript gives an Invalid Date otherwise.
\<close>

definition fullYear :: "int \<Rightarrow> int" where
  "fullYear y = (if 0 \<le> y \<and> y \<le> 99 then 1900 + y else y)"

definition newDate :: "int \<Rightarrow> int \<Rightarrow> int \<Rightarrow> Date" where
  "newDate y m dt = MakeDay (fullYear y) m dt"

text \<open>\<^verbatim>\<open>getFullYear\<close>: the year \<open>y\<close> with \<open>DayFromYear y \<le> d < DayFromYear (y + 1)\<close>.\<close>

definition getFullYear :: "Date \<Rightarrow> int" where
  "getFullYear d =
     (let y = 1970 + (400 * d) div 146097
      in if DayFromYear (y + 1) \<le> d then y + 1
         else if d < DayFromYear y then y - 1
         else y)"

definition DayWithinYear :: "Date \<Rightarrow> int" where
  "DayWithinYear d = d - DayFromYear (getFullYear d)"

definition getMonth :: "Date \<Rightarrow> int" where
  "getMonth d =
     (let y = getFullYear d; n = DayWithinYear d
      in if n < monthStart y 1 then 0
         else if n < monthStart y 2 then 1
         else if n < monthStart y 3 then 2
         else if n < monthStart y 4 then 3
         else if n < monthStart y 5 then 4
         else if n < monthStart y 6 then 5
         else if n < monthStart y 7 then 6
         else if n < monthStart y 8 then 7
         else if n < monthStart y 9 then 8
         else if n < monthStart y 10 then 9
         else if n < monthStart y 11 then 10
         else 11)"

definition getDate :: "Date \<Rightarrow> int" where
  "getDate d = DayWithinYear d - monthStart (getFullYear d) (getMonth d) + 1"

text \<open>\<^verbatim>\<open>getDay\<close>: 0 = Sunday, ..., 6 = Saturday; 1 January 1970 was a Thursday.\<close>

definition getDay :: "Date \<Rightarrow> int" where
  "getDay d = (d + 4) mod 7"

text \<open>
  \<^verbatim>\<open>date.setDate(n)\<close>: day \<open>n\<close> of the month of \<open>date\<close>, made with \<^verbatim>\<open>MakeDay\<close> from the
  year and the month of \<open>date\<close>; the year is taken as it is.
\<close>

definition setDate :: "Date \<Rightarrow> int \<Rightarrow> Date" where
  "setDate d n = MakeDay (getFullYear d) (getMonth d) n"

section \<open>Easter Sunday\<close>

text \<open>
  \<^verbatim>\<open>getEasterSunday\<close>. \<^verbatim>\<open>Math.floor(x / n)\<close> on integers is \<open>div\<close>; the operator \<^verbatim>\<open>%\<close> is
  the remainder that takes the sign of the dividend, \<open>smod\<close>.
\<close>

definition getEasterSunday :: "int \<Rightarrow> Date" where
  "getEasterSunday year =
     (let a = year smod 19;
          b = year div 100;
          c = year smod 100;
          d = b div 4;
          e = b smod 4;
          f = (b + 8) div 25;
          g = (b - f + 1) div 3;
          h = (19 * a + b - d - g + 15) smod 30;
          i = c div 4;
          k = c smod 4;
          l = (32 + 2 * e + 2 * i - h - k) smod 7;
          m = (a + 11 * h + 22 * l) div 451;
          month = (h + l - 7 * m + 114) div 31 - 1;
          day = ((h + l - 7 * m + 114) smod 31) + 1
      in newDate year month day)"

section \<open>Time zones and time values\<close>

text \<open>
  The dates are local, and the code subtracts and compares them through their time values
  (milliseconds, UTC). A time zone is modelled by its standard offset and by the days at
  whose local midnight summer time (one hour) is in force; \<open>getTime\<close> is the time value of
  the local midnight of a day. \<^verbatim>\<open>a - b\<close> on dates is \<open>getTime z a - getTime z b\<close>, and
  \<^verbatim>\<open>a < b\<close> is \<open>getTime z a < getTime z b\<close>.
\<close>

record zone =
  stdOffset :: int
  dst :: "Date \<Rightarrow> bool"

definition offset :: "zone \<Rightarrow> Date \<Rightarrow> int" where
  "offset z d = stdOffset z + (if dst z d then msPerHour else 0)"

definition getTime :: "zone \<Rightarrow> Date \<Rightarrow> int" where
  "getTime z d = d * msPerDay - offset z d"

text \<open>
  \<^verbatim>\<open>TimeClip\<close>: a date is valid when its time value is at most 8.64e15 milliseconds away
  from 1970; the constructor and \<^verbatim>\<open>setDate\<close> give an Invalid Date otherwise.
\<close>

definition validDate :: "zone \<Rightarrow> Date \<Rightarrow> bool" where
  "validDate z d \<longleftrightarrow> \<bar>getTime z d\<bar> \<le> 8640000000000000"

definition utc :: zone where
  "utc = \<lparr>stdOffset = 0, dst = (\<lambda>d. False)\<rparr>"

text \<open>
  Europe/London under the rule in force since 1996: summer time from 01:00 UTC on the last
  Sunday of March to 01:00 UTC on the last Sunday of October. The local midnight of a day
  is in summer time from the Monday after the first Sunday up to the second Sunday.
  The README lists among the known limitations that all calculations assume the London
  time zone.
\<close>

definition lastSunday :: "int \<Rightarrow> int \<Rightarrow> Date" where
  "lastSunday y m = (let last = MakeDay y (m + 1) 0 in last - getDay last)"

definition london :: zone where
  "london = \<lparr>stdOffset = 0,
     dst = (\<lambda>d. lastSunday (getFullYear d) 2 < d \<and> d \<le> lastSunday (getFullYear d) 9)\<rparr>"

definition Math_round :: "rat \<Rightarrow> int" where
  "Math_round x = \<lfloor>x + 1 / 2\<rfloor>"

definition Math_floor :: "rat \<Rightarrow> int" where
  "Math_floor x = \<lfloor>x\<rfloor>"

definition Math_ceil :: "rat \<Rightarrow> int" where
  "Math_ceil x = \<lceil>x\<rceil>"

section \<open>The payroll cycle\<close>


definition getNextPayday :: "zone \<Rightarrow> Date \<Rightarrow> Date" where
  "getNextPayday z fromDate =
     (let d = fromDate;
          referencePayday = newDate 2025 11 5;
          daysDiff = Math_round (of_int (getTime z d - getTime z referencePayday)
                                   / of_int msPerDay);
          daysUntilPayday = 28 - daysDiff smod 28;
          daysUntilPayday = (if daysUntilPayday = 28 then 0 else daysUntilPayday);
          nextPayday = setDate d (getDate d + daysUntilPayday)
      in nextPayday)"

text \<open>
  The specification's wording of \<^verbatim>\<open>getNextPayday\<close>, with the floor-based modulo it asks for:
  \<open>daysUntil = 28 - ((date - referencePayday) mod 28)\<close>; if that equals 28, return the
  date, otherwise the date plus \<open>daysUntil\<close> days.
\<close>

definition spec_getNextPayday :: "Date \<Rightarrow> Date" where
  "spec_getNextPayday date =
     (let daysUntil = 28 - (date - newDate 2025 11 5) mod 28
      in if daysUntil = 28 then date else date + daysUntil)"

section \<open>The railway calendar\<close>

definition getWeekOneStart :: "int \<Rightarrow> Date" where
  "getWeekOneStart railwayYear =
     (let lastDayOfMarch = newDate railwayYear 2 31;
          dayOfWeek = getDay lastDayOfMarch;
          daysToGoBack = (dayOfWeek + 1) smod 7;
          lastSaturday = newDate railwayYear 2 (31 - daysToGoBack)
      in lastSaturday)"

text \<open>
  \<^verbatim>\<open>getWeekOneStart\<close> makes two dates, 31 March and the Saturday that it returns. Its
  result is a valid date when both are.
\<close>

definition weekOneStartValid :: "zone \<Rightarrow> int \<Rightarrow> bool" where
  "weekOneStartValid z Y \<longleftrightarrow>
     validDate z (newDate Y 2 31) \<and> validDate z (getWeekOneStart Y)"

definition getTotalWeeks :: "zone \<Rightarrow> int \<Rightarrow> int" where
  "getTotalWeeks z railwayYear =
     (let thisYearStart = getWeekOneStart railwayYear;
          nextYearStart = getWeekOneStart (railwayYear + 1);
          days = Math_round (of_int (getTime z nextYearStart - getTime z thisYearStart)
                               / of_int msPerDay)
      in Math_floor (of_int days / 7))"

record DateRange =
  startDate :: Date
  endDate :: Date

definition railwayToDateRange :: "int \<Rightarrow> int \<Rightarrow> DateRange" where
  "railwayToDateRange railwayYear railWeek =
     (let weekOneStart = getWeekOneStart railwayYear;
          startDate = setDate weekOneStart (getDate weekOneStart + (railWeek - 1) * 7);
          endDate = setDate startDate (getDate startDate + 6)
      in \<lparr>startDate = startDate, endDate = endDate\<rparr>)"

text \<open>Decimal strings, for \<^verbatim>\<open>railwayYearDisplay\<close>.\<close>

function showNat :: "nat \<Rightarrow> string" where
  "showNat n = (if n < 10 then [char_of (48 + n)]
                else showNat (n div 10) @ [char_of (48 + n mod 10)])"
  by pat_completeness auto
termination
  by (relation "measure id") auto

definition toString :: "int \<Rightarrow> string" where
  "toString i = (if i < 0 then CHR ''-'' # showNat (nat (- i)) else showNat (nat i))"

text \<open>\<^verbatim>\<open>s.slice(-2)\<close>: the last two characters, or all of a shorter string.\<close>

definition slice_last2 :: "string \<Rightarrow> string" where
  "slice_last2 s = drop (length s - 2) s"

definition dayNames :: "string list" where
  "dayNames = [''Saturday'', ''Sunday'', ''Monday'', ''Tuesday'', ''Wednesday'',
               ''Thursday'', ''Friday'']"

text \<open>Indexing an array outside its bounds gives \<^verbatim>\<open>undefined\<close>, here \<open>None\<close>.\<close>

definition index :: "'a list \<Rightarrow> int \<Rightarrow> 'a option" where
  "index xs i = (if 0 \<le> i \<and> i < int (length xs) then Some (xs ! nat i) else None)"

record RailwayCoordinate =
  railwayYear :: int
  railWeek :: int
  dayOfRailWeek :: int
  period :: int
  weekInPeriod :: int
  totalWeeks :: int
  weekOneStart :: Date
  dayName :: "string option"
  railwayYearDisplay :: string

text \<open>
  \<^verbatim>\<open>dateToRailway\<close>. The argument is the local day of the date passed in:
  \<^verbatim>\<open>setHours(0, 0, 0, 0)\<close> moves the copy to the local midnight of that day.
\<close>

definition dateToRailway :: "zone \<Rightarrow> Date \<Rightarrow> RailwayCoordinate" where
  "dateToRailway z date =
     (let d = date;
          year0 = getFullYear d;
          start0 = getWeekOneStart year0;
          (railwayYear, weekOneStart) =
            (if getTime z d < getTime z start0
             then (year0 - 1, getWeekOneStart (year0 - 1))
             else (let nextYearStart = getWeekOneStart (year0 + 1)
                   in if getTime z nextYearStart \<le> getTime z d
                      then (year0 + 1, nextYearStart)
                      else (year0, start0)));
          daysDiff = Math_floor (of_int (getTime z d - getTime z weekOneStart)
                                   / of_int msPerDay);
          railWeek = Math_floor (of_int daysDiff / 7) + 1;
          dayOfRailWeek = daysDiff smod 7 + 1;
          period = Math_ceil (of_int railWeek / 4);
          weekInPeriod = (railWeek - 1) smod 4 + 1;
          totalWeeks = getTotalWeeks z railwayYear
      in \<lparr>railwayYear = railwayYear,
          railWeek = railWeek,
          dayOfRailWeek = dayOfRailWeek,
          period = period,
          weekInPeriod = weekInPeriod,
          totalWeeks = totalWeeks,
          weekOneStart = weekOneStart,
          dayName = index dayNames (dayOfRailWeek - 1),
          railwayYearDisplay =
            toString railwayYear @ ''/'' @ slice_last2 (toString (railwayYear + 1))\<rparr>)"

section \<open>Floating-point numbers\<close>

text \<open>
  The astronomical functions compute with fractions. A JavaScript number is an IEEE 754
  double; here it is the rational number it denotes, and every arithmetic operation rounds
  its exact result to the nearest double, ties to the even significand (\<open>fl\<close>): 53
  significant bits, with the exponent \<open>expo\<close> of the exact result. The numbers of these
  functions are far from the subnormal and the overflow range, which \<open>fl\<close> leaves out.
  \<^verbatim>\<open>%\<close> on numbers is exact (\<open>fmod\<close>), as are \<^verbatim>\<open>Math.floor\<close> and \<^verbatim>\<open>Math.round\<close>.
\<close>

definition roundHalfEven :: "rat \<Rightarrow> int" where
  "roundHalfEven q =
     (let n = \<lfloor>q\<rfloor>; r = q - of_int n
      in if r < 1 / 2 then n else if 1 / 2 < r then n + 1
         else if even n then n else n + 1)"

definition expo :: "rat \<Rightarrow> int" where
  "expo x =
     (let (p, q) = quotient_of \<bar>x\<bar>; k = bitlen p - bitlen q
      in if 2 powi k \<le> \<bar>x\<bar> then k else k - 1)"

definition fl :: "rat \<Rightarrow> rat" where
  "fl x = (if x = 0 then 0
           else (let u = 2 powi (expo x - 52) in of_int (roundHalfEven (x / u)) * u))"

definition fadd :: "rat \<Rightarrow> rat \<Rightarrow> rat" where
  "fadd a b = fl (a + b)"

definition fsub :: "rat \<Rightarrow> rat \<Rightarrow> rat" where
  "fsub a b = fl (a - b)"

definition fmul :: "rat \<Rightarrow> rat \<Rightarrow> rat" where
  "fmul a b = fl (a * b)"

definition fdiv :: "rat \<Rightarrow> rat \<Rightarrow> rat" where
  "fdiv a b = fl (a / b)"

definition fmod :: "rat \<Rightarrow> rat \<Rightarrow> rat" where
  "fmod n d = n - d * of_int (if 0 \<le> n / d then \<lfloor>n / d\<rfloor> else \<lceil>n / d\<rceil>)"

text \<open>
  \<^verbatim>\<open>Math.sin\<close>, \<^verbatim>\<open>Math.cos\<close>, \<^verbatim>\<open>Math.tan\<close> and \<^verbatim>\<open>Math.acos\<close> are approximations that
  ECMAScript leaves to the implementation: they are parameters of the model.
  \<^verbatim>\<open>Math.PI\<close> is the double nearest to \<open>\<pi>\<close>.
\<close>

record MathLib =
  Math_sin :: "rat \<Rightarrow> rat"
  Math_cos :: "rat \<Rightarrow> rat"
  Math_tan :: "rat \<Rightarrow> rat"
  Math_acos :: "rat \<Rightarrow> rat"

definition Math_PI :: rat where
  "Math_PI = 884279719003555 / 281474976710656"

text \<open>An emoji is kept as the bytes of its UTF-8 encoding.\<close>

definition utf8 :: "nat list \<Rightarrow> string" where
  "utf8 bs = map char_of bs"

section \<open>The length of the day\<close>

text \<open>
  \<^verbatim>\<open>getDayLength\<close> does not move its argument to midnight: the argument is given by its
  local day and by the milliseconds from the local midnight of that day to the date, so
  that its time value is \<open>getTime z date + sinceMidnight\<close>. The local functions \<^verbatim>\<open>toRad\<close>,
  \<^verbatim>\<open>toDeg\<close> and \<^verbatim>\<open>formatTime\<close> are definitions of their own, and so are the day of the
  year (\<open>dayOfYearOf\<close>), the declination (\<open>declinationOn\<close>) and the cosine of the hour
  angle (\<open>cosHourAngleOn\<close>), which the code computes for the day and again for the day
  after. A decimal literal is the double nearest to it.
\<close>

definition toRad :: "rat \<Rightarrow> rat" where
  "toRad deg = fdiv (fmul deg Math_PI) 180"

definition toDeg :: "rat \<Rightarrow> rat" where
  "toDeg rad = fdiv (fmul rad 180) Math_PI"

definition latitude :: rat where
  "latitude = fl (515074 / 10000)"

definition longitude :: rat where
  "longitude = - fl (1278 / 10000)"

definition dayOfYearOf :: "zone \<Rightarrow> Date \<Rightarrow> int \<Rightarrow> int" where
  "dayOfYearOf z date sinceMidnight =
     (let startOfYear = newDate (getFullYear date) 0 0;
          diff = fsub (of_int (getTime z date + sinceMidnight)) (of_int (getTime z startOfYear))
      in Math_floor (fdiv diff (of_int msPerDay)))"

definition declinationOn :: "MathLib \<Rightarrow> int \<Rightarrow> rat" where
  "declinationOn M n =
     toRad (fmul (fl (2344 / 100))
       (Math_sin M (toRad (fmul (fdiv 360 365) (fadd (of_int n) 284)))))"

definition cosHourAngleOn :: "MathLib \<Rightarrow> int \<Rightarrow> rat" where
  "cosHourAngleOn M n = fmul (- Math_tan M (toRad latitude)) (Math_tan M (declinationOn M n))"

text \<open>\<^verbatim>\<open>s.padStart(2, '0')\<close>.\<close>

definition padStart2 :: "string \<Rightarrow> string" where
  "padStart2 s = (if length s < 2 then replicate (2 - length s) (CHR ''0'') @ s else s)"

definition formatTime :: "rat \<Rightarrow> string" where
  "formatTime minutes =
     (let hrs = Math_floor (fdiv minutes 60);
          mins = Math_round (fmod minutes 60)
      in padStart2 (toString hrs) @ '':'' @ padStart2 (toString mins))"

record DayLengthInfo =
  dayLengthHours :: rat
  dayLengthFormatted :: string
  dayLengthPercent :: int
  sunrise :: "string option"
  sunset :: "string option"
  daysGettingLonger :: bool
  changeMinutes :: int
  changeFormatted :: string

definition getDayLength :: "MathLib \<Rightarrow> zone \<Rightarrow> Date \<Rightarrow> int \<Rightarrow> DayLengthInfo" where
  "getDayLength M z date sinceMidnight =
     (let dayOfYear = dayOfYearOf z date sinceMidnight;
          cosHourAngle = cosHourAngleOn M dayOfYear;
          (hourAngle, dayLengthHours, sunrise, sunset) =
            (if cosHourAngle < - 1 then (Math_PI, 24, None, None)
             else if cosHourAngle > 1 then (0, 0, None, None)
             else (let hourAngle = Math_acos M cosHourAngle;
                       dayLengthHours = fdiv (fmul 2 (toDeg hourAngle)) 15;
                       B = toRad (fmul (fdiv 360 365) (fsub (of_int dayOfYear) 81));
                       equationOfTime =
                         fsub (fsub (fmul (fl (987 / 100)) (Math_sin M (fmul 2 B)))
                                    (fmul (fl (753 / 100)) (Math_cos M B)))
                              (fmul (3 / 2) (Math_sin M B));
                       timeCorrection = fadd (fmul 4 longitude) equationOfTime;
                       solarNoon = fsub (fmul 12 60) timeCorrection;
                       halfDayMinutes = fmul (fdiv dayLengthHours 2) 60;
                       sunriseMinutes = fsub solarNoon halfDayMinutes;
                       sunsetMinutes = fadd solarNoon halfDayMinutes
                   in (hourAngle, dayLengthHours,
                       Some (formatTime sunriseMinutes), Some (formatTime sunsetMinutes))));
          hours = Math_floor dayLengthHours;
          minutes = Math_round (fmul (fsub dayLengthHours (of_int hours)) 60);
          dayLengthFormatted = toString hours @ ''h '' @ toString minutes @ ''m'';
          maxDayLength = 33 / 2;
          minDayLength = 15 / 2;
          dayLengthPercent =
            Math_round (fmul (fdiv (fsub dayLengthHours minDayLength)
                                   (fsub maxDayLength minDayLength)) 100);
          tomorrowDayOfYear = dayOfYear + 1;
          tomorrowCosHourAngle = cosHourAngleOn M tomorrowDayOfYear;
          tomorrowHourAngle = Math_acos M (max (- 1) (min 1 tomorrowCosHourAngle));
          tomorrowDayLength = fdiv (fmul 2 (toDeg tomorrowHourAngle)) 15;
          dayLengthChange = fsub tomorrowDayLength dayLengthHours;
          daysGettingLonger = (dayLengthChange > 0);
          changeMinutes = \<bar>Math_round (fmul dayLengthChange 60)\<bar>
      in \<lparr>dayLengthHours = fdiv (of_int (Math_round (fmul dayLengthHours 100))) 100,
          dayLengthFormatted = dayLengthFormatted,
          dayLengthPercent = max 0 (min 100 dayLengthPercent),
          sunrise = sunrise,
          sunset = sunset,
          daysGettingLonger = daysGettingLonger,
          changeMinutes = changeMinutes,
          changeFormatted =
            (if daysGettingLonger then ''+'' else ''-'') @ toString changeMinutes @ ''m''\<rparr>)"

section \<open>The phase of the moon\<close>

text \<open>
  \<^verbatim>\<open>new Date(2000, 0, 6, 18, 14, 0)\<close> is 18:14 local time on 6 January 2000; its time value
  is taken with the offset of the midnight of that day.
\<close>

definition newDateTime :: "zone \<Rightarrow> int \<Rightarrow> int \<Rightarrow> int \<Rightarrow> int \<Rightarrow> int \<Rightarrow> int \<Rightarrow> int" where
  "newDateTime z y m dt h mi s = getTime z (newDate y m dt) + ((h * 60 + mi) * 60 + s) * 1000"

text \<open>\<^verbatim>\<open>const synodicMonth = 29.53058867\<close>: the double nearest to the decimal literal.\<close>

definition synodicMonth :: rat where
  "synodicMonth = fl (2953058867 / 100000000)"

record MoonPhaseInfo =
  phase :: int
  emoji :: string
  name :: string
  lunarDay :: rat
  illumination :: int
  isSignificant :: bool

definition getMoonPhase :: "MathLib \<Rightarrow> zone \<Rightarrow> Date \<Rightarrow> MoonPhaseInfo" where
  "getMoonPhase M z date =
     (let d = date;
          knownNewMoon = newDateTime z 2000 0 6 18 14 0;
          daysSinceNewMoon =
            fdiv (fsub (of_int (getTime z d)) (of_int knownNewMoon)) (of_int msPerDay);
          lunarDay = fmod daysSinceNewMoon synodicMonth;
          lunarDay = (if lunarDay < 0 then fadd lunarDay synodicMonth else lunarDay);
          illumination =
            Math_round (fmul (fdiv (fsub 1
              (Math_cos M (fmul (fmul (fdiv lunarDay synodicMonth) 2) Math_PI))) 2) 100);
          phaseLength = fdiv synodicMonth 8;
          (phase, emoji, name) =
            (if lunarDay < fmul phaseLength (1 / 2)
             then (0, utf8 [240, 159, 140, 145], ''New Moon'')
             else if lunarDay < fmul phaseLength (3 / 2)
             then (1, utf8 [240, 159, 140, 146], ''Waxing Crescent'')
             else if lunarDay < fmul phaseLength (5 / 2)
             then (2, utf8 [240, 159, 140, 147], ''First Quarter'')
             else if lunarDay < fmul phaseLength (7 / 2)
             then (3, utf8 [240, 159, 140, 148], ''Waxing Gibbous'')
             else if lunarDay < fmul phaseLength (9 / 2)
             then (4, utf8 [240, 159, 140, 149], ''Full Moon'')
             else if lunarDay < fmul phaseLength (11 / 2)
             then (5, utf8 [240, 159, 140, 150], ''Waning Gibbous'')
             else if lunarDay < fmul phaseLength (13 / 2)
             then (6, utf8 [240, 159, 140, 151], ''Last Quarter'')
             else if lunarDay < fmul phaseLength (15 / 2)
             then (7, utf8 [240, 159, 140, 152], ''Waning Crescent'')
             else (0, utf8 [240, 159, 140, 145], ''New Moon''));
          isSignificant = (phase = 0 \<or> phase = 2 \<or> phase = 4 \<or> phase = 6)
      in \<lparr>phase = phase, emoji = emoji, name = name, lunarDay = lunarDay,
          illumination = illumination, isSignificant = isSignificant\<rparr>)"

section \<open>The holiday table\<close>

definition addDays :: "Date \<Rightarrow> int \<Rightarrow> Date" where
  "addDays date days = setDate date (getDate date + days)"

definition getNthWeekday :: "int \<Rightarrow> int \<Rightarrow> int \<Rightarrow> int \<Rightarrow> Date" where
  "getNthWeekday year month weekday n =
     (if n > 0
      then (let first = newDate year month 1;
                dayOffset = (weekday - getDay first + 7) smod 7
            in newDate year month (1 + dayOffset + (n - 1) * 7))
      else (let last = newDate year (month + 1) 0;
                dayOffset = (getDay last - weekday + 7) smod 7
            in newDate year (month + 1) (- dayOffset + (n + 1) * 7)))"

record HolidayEntry =
  date :: Date
  name :: string
  emoji :: string
  type :: string

definition getUKBankHolidays :: "int \<Rightarrow> HolidayEntry list" where
  "getUKBankHolidays year =
     (let easter = getEasterSunday year;
          nyd = newDate year 0 1;
          nyd = (if getDay nyd = 0 then newDate year 0 2 else nyd);
          nyd = (if getDay nyd = 6 then newDate year 0 3 else nyd);
          xmas = newDate year 11 25;
          xmasDay = getDay xmas;
          xmas = (if xmasDay = 0 then newDate year 11 27 else xmas);
          xmas = (if xmasDay = 6 then newDate year 11 27 else xmas);
          boxing = newDate year 11 26;
          boxingDay = getDay boxing;
          boxing = (if boxingDay = 0 then newDate year 11 28 else boxing);
          boxing = (if boxingDay = 6 then newDate year 11 28 else boxing);
          xmasDate = newDate year 11 25;
          xmasDayOfWeek = getDay xmasDate;
          daysToSunday = (if xmasDayOfWeek = 0 then 0 else 7 - xmasDayOfWeek);
          advent = newDate year 11 (25 - daysToSunday - 21);
          diwaliOffset = ((year - 2024) * 11) smod 30;
          diwali = newDate year (9 + (15 + diwaliOffset) div 30)
                     (if (15 + diwaliOffset) smod 30 = 0 then 15
                      else (15 + diwaliOffset) smod 30);
          eidFitrBase = newDate 2024 3 10;
          yearDiff = year - 2024;
          eidShift = (yearDiff * 11) smod 354;
          eidFitr = setDate eidFitrBase (getDate eidFitrBase - eidShift);
          eidFitr = (if getFullYear eidFitr \<noteq> year
                     then newDate year (getMonth eidFitr) (getDate eidFitr)
                     else eidFitr);
          eidAdha = addDays eidFitr 70
      in [\<lparr>date = nyd, name = ''New Year's Day'',
          emoji = utf8 [240, 159, 142, 134], type = ''bank''\<rparr>,
         \<lparr>date = addDays easter (- 2), name = ''Good Friday'',
          emoji = utf8 [226, 156, 157, 239, 184, 143], type = ''bank''\<rparr>,
         \<lparr>date = addDays easter 1, name = ''Easter Monday'',
          emoji = utf8 [240, 159, 144, 163], type = ''bank''\<rparr>,
         \<lparr>date = getNthWeekday year 4 1 1, name = ''Early May Bank Holiday'',
          emoji = utf8 [240, 159, 140, 183], type = ''bank''\<rparr>,
         \<lparr>date = getNthWeekday year 4 1 (- 1), name = ''Spring Bank Holiday'',
          emoji = utf8 [240, 159, 140, 187], type = ''bank''\<rparr>,
         \<lparr>date = getNthWeekday year 7 1 (- 1), name = ''Summer Bank Holiday'',
          emoji = utf8 [226, 152, 128, 239, 184, 143], type = ''bank''\<rparr>,
         \<lparr>date = xmas, name = ''Christmas Day'',
          emoji = utf8 [240, 159, 142, 132], type = ''bank''\<rparr>,
         \<lparr>date = boxing, name = ''Boxing Day'',
          emoji = utf8 [240, 159, 142, 129], type = ''bank''\<rparr>,
         \<lparr>date = newDate year 0 6, name = ''Epiphany'',
          emoji = utf8 [226, 173, 144], type = ''religious''\<rparr>,
         \<lparr>date = addDays easter (- 47), name = ''Shrove Tuesday'',
          emoji = utf8 [240, 159, 165, 158], type = ''religious''\<rparr>,
         \<lparr>date = addDays easter (- 46), name = ''Ash Wednesday'',
          emoji = utf8 [226, 156, 157, 239, 184, 143], type = ''religious''\<rparr>,
         \<lparr>date = addDays easter (- 21), name = ''Mother's Day (UK)'',
          emoji = utf8 [240, 159, 146, 144], type = ''cultural''\<rparr>,
         \<lparr>date = addDays easter (- 7), name = ''Palm Sunday'',
          emoji = utf8 [240, 159, 140, 191], type = ''religious''\<rparr>,
         \<lparr>date = addDays easter (- 3), name = ''Maundy Thursday'',
          emoji = utf8 [226, 156, 157, 239, 184, 143], type = ''religious''\<rparr>,
         \<lparr>date = easter, name = ''Easter Sunday'',
          emoji = utf8 [240, 159, 144, 163], type = ''religious''\<rparr>,
         \<lparr>date = addDays easter 39, name = ''Ascension Day'',
          emoji = utf8 [226, 152, 129, 239, 184, 143], type = ''religious''\<rparr>,
         \<lparr>date = addDays easter 49, name = ''Pentecost'',
          emoji = utf8 [240, 159, 149, 138, 239, 184, 143], type = ''religious''\<rparr>,
         \<lparr>date = advent, name = ''Advent Sunday'',
          emoji = utf8 [240, 159, 149, 175, 239, 184, 143], type = ''religious''\<rparr>,
         \<lparr>date = newDate year 11 24, name = ''Christmas Eve'',
          emoji = utf8 [240, 159, 142, 132], type = ''religious''\<rparr>,
         \<lparr>date = diwali, name = ''Diwali (approx)'',
          emoji = utf8 [240, 159, 170, 148], type = ''religious''\<rparr>,
         \<lparr>date = newDate year 11 10, name = ''Hanukkah (approx)'',
          emoji = utf8 [240, 159, 149, 142], type = ''religious''\<rparr>,
         \<lparr>date = eidFitr, name = ''Eid al-Fitr (approx)'',
          emoji = utf8 [240, 159, 140, 153], type = ''religious''\<rparr>,
         \<lparr>date = eidAdha, name = ''Eid al-Adha (approx)'',
          emoji = utf8 [240, 159, 140, 153], type = ''religious''\<rparr>,
         \<lparr>date = newDate year 0 25, name = ''Burns Night'',
          emoji = utf8 [240, 159, 143, 180, 243, 160, 129, 167, 243, 160, 129, 162, 243, 160, 129, 179, 243, 160, 129, 163, 243, 160, 129, 180, 243, 160, 129, 191], type = ''cultural''\<rparr>,
         \<lparr>date = newDate year 1 14, name = ''Valentine's Day'',
          emoji = utf8 [240, 159, 146, 157], type = ''cultural''\<rparr>,
         \<lparr>date = newDate year 2 1, name = ''St David's Day'',
          emoji = utf8 [240, 159, 143, 180, 243, 160, 129, 167, 243, 160, 129, 162, 243, 160, 129, 183, 243, 160, 129, 172, 243, 160, 129, 179, 243, 160, 129, 191], type = ''cultural''\<rparr>,
         \<lparr>date = newDate year 2 17, name = ''St Patrick's Day'',
          emoji = utf8 [226, 152, 152, 239, 184, 143], type = ''cultural''\<rparr>,
         \<lparr>date = newDate year 3 23, name = ''St George's Day'',
          emoji = utf8 [240, 159, 143, 180, 243, 160, 129, 167, 243, 160, 129, 162, 243, 160, 129, 165, 243, 160, 129, 174, 243, 160, 129, 167, 243, 160, 129, 191], type = ''cultural''\<rparr>,
         \<lparr>date = getNthWeekday year 5 0 3, name = ''Father's Day'',
          emoji = utf8 [240, 159, 145, 148], type = ''cultural''\<rparr>,
         \<lparr>date = newDate year 9 31, name = ''Halloween'',
          emoji = utf8 [240, 159, 142, 131], type = ''cultural''\<rparr>,
         \<lparr>date = newDate year 10 5, name = ''Bonfire Night'',
          emoji = utf8 [240, 159, 142, 134], type = ''cultural''\<rparr>,
         \<lparr>date = getNthWeekday year 10 0 2, name = ''Remembrance Sunday'',
          emoji = utf8 [240, 159, 140, 186], type = ''cultural''\<rparr>,
         \<lparr>date = newDate year 10 11, name = ''Armistice Day'',
          emoji = utf8 [240, 159, 142, 150, 239, 184, 143], type = ''cultural''\<rparr>,
         \<lparr>date = newDate year 10 30, name = ''St Andrew's Day'',
          emoji = utf8 [240, 159, 143, 180, 243, 160, 129, 167, 243, 160, 129, 162, 243, 160, 129, 179, 243, 160, 129, 163, 243, 160, 129, 180, 243, 160, 129, 191], type = ''cultural''\<rparr>,
         \<lparr>date = newDate year 11 31, name = ''New Year's Eve'',
          emoji = utf8 [240, 159, 165, 130], type = ''cultural''\<rparr>])"

section \<open>Calendar arithmetic\<close>

lemma succ_div:
  fixes x n :: int
  assumes "0 < n"
  shows "(x + 1) div n = x div n + (if (x + 1) mod n = 0 then 1 else 0)"
proof (cases "x mod n + 1 = n")
  case True
  have "n * (x div n) + x mod n = x" by (rule mult_div_mod_eq)
  with True have "x + 1 = n * (x div n) + n" by linarith
  then have e: "x + 1 = (x div n + 1) * n" by (simp add: algebra_simps)
  have "(x + 1) div n = x div n + 1"
    unfolding e using assms by simp
  moreover have "(x + 1) mod n = 0"
    unfolding e by simp
  ultimately show ?thesis by simp
next
  case False
  have r: "0 \<le> x mod n + 1" "x mod n + 1 < n"
    using assms False pos_mod_bound [of n x] pos_mod_sign [of n x] by linarith+
  have e: "x + 1 = n * (x div n) + (x mod n + 1)"
    using mult_div_mod_eq [of n x] by simp
  have "(x + 1) div n = x div n"
    using int_div_pos_eq [OF e r] .
  moreover have "(x + 1) mod n = x mod n + 1"
    using int_mod_pos_eq [OF e r] .
  moreover have "x mod n + 1 \<noteq> 0"
    using pos_mod_sign [of n x] assms by linarith
  ultimately show ?thesis by simp
qed

lemma mod_shift_4: "(y - 1968) mod 4 = y mod 4" for y :: int
proof -
  have "y - 1968 = y + 4 * (- 492)" by simp
  then show ?thesis by (simp only: mod_mult_self2)
qed

lemma mod_shift_100: "(y - 1900) mod 100 = y mod 100" for y :: int
proof -
  have "y - 1900 = y + 100 * (- 19)" by simp
  then show ?thesis by (simp only: mod_mult_self2)
qed

lemma mod_shift_400: "(y - 1600) mod 400 = y mod 400" for y :: int
proof -
  have "y - 1600 = y + 400 * (- 4)" by simp
  then show ?thesis by (simp only: mod_mult_self2)
qed

lemma mod_400_100: "y mod 400 = 0 \<Longrightarrow> y mod 100 = 0" for y :: int
proof -
  assume "y mod 400 = 0"
  then have "400 dvd y" by (simp only: dvd_eq_mod_eq_0)
  moreover have "(100::int) dvd 400" by simp
  ultimately have "100 dvd y" by (rule dvd_trans [rotated])
  then show ?thesis by (simp only: dvd_eq_mod_eq_0)
qed

lemma mod_100_4: "y mod 100 = 0 \<Longrightarrow> y mod 4 = 0" for y :: int
proof -
  assume "y mod 100 = 0"
  then have "100 dvd y" by (simp only: dvd_eq_mod_eq_0)
  moreover have "(4::int) dvd 100" by simp
  ultimately have "4 dvd y" by (rule dvd_trans [rotated])
  then show ?thesis by (simp only: dvd_eq_mod_eq_0)
qed


lemma DayFromYear_Suc: "DayFromYear (y + 1) = DayFromYear y + 365 + leapDay y"
proof -
  define A where "A = (y - 1969) div 4"
  define B where "B = (y - 1901) div 100"
  define C where "C = (y - 1601) div 400"
  define P where "P \<longleftrightarrow> y mod 4 = 0"
  define Q where "Q \<longleftrightarrow> y mod 100 = 0"
  define R where "R \<longleftrightarrow> y mod 400 = 0"
  have a: "(y - 1968) div 4 = A + (if P then 1 else 0)"
    using succ_div [of 4 "y - 1969"] mod_shift_4 [of y] by (simp add: A_def P_def)
  have b: "(y - 1900) div 100 = B + (if Q then 1 else 0)"
    using succ_div [of 100 "y - 1901"] mod_shift_100 [of y] by (simp add: B_def Q_def)
  have c: "(y - 1600) div 400 = C + (if R then 1 else 0)"
    using succ_div [of 400 "y - 1601"] mod_shift_400 [of y] by (simp add: C_def R_def)
  have "DayFromYear (y + 1) =
      365 * (y - 1969) + (y - 1968) div 4 - (y - 1900) div 100 + (y - 1600) div 400"
    by (simp add: DayFromYear_def)
  then have 1: "DayFromYear (y + 1) =
      365 * (y - 1969) + (A + (if P then 1 else 0)) - (B + (if Q then 1 else 0))
        + (C + (if R then 1 else 0))"
    by (simp only: a b c)
  have 2: "DayFromYear y = 365 * (y - 1970) + A - B + C"
    by (simp add: DayFromYear_def A_def B_def C_def)
  have 3: "leapDay y = (if P \<and> (\<not> Q \<or> R) then 1 else 0)"
    by (simp only: leapDay_def InLeapYear_def P_def Q_def R_def)
  have 4: "R \<Longrightarrow> Q" "Q \<Longrightarrow> P"
    using mod_400_100 [of y] mod_100_4 [of y] by (simp_all only: P_def Q_def R_def)
  show ?thesis
    unfolding 1 2 3 using 4 by (cases P; cases Q; cases R) simp_all
qed

lemma DayFromYear_step_lower: "DayFromYear y + 365 \<le> DayFromYear (y + 1)"
  by (simp add: DayFromYear_Suc leapDay_def)

lemma DayFromYear_step_upper: "DayFromYear (y + 1) \<le> DayFromYear y + 366"
  by (simp add: DayFromYear_Suc leapDay_def)

lemma DayFromYear_mono_aux: "DayFromYear y + 365 * int n \<le> DayFromYear (y + int n)"
proof (induction n)
  case 0
  then show ?case by simp
next
  case (Suc n)
  have "DayFromYear (y + int n) + 365 \<le> DayFromYear (y + int n + 1)"
    by (rule DayFromYear_step_lower)
  with Suc show ?case by (simp add: algebra_simps)
qed

lemma DayFromYear_grow: "y \<le> y' \<Longrightarrow> DayFromYear y + 365 * (y' - y) \<le> DayFromYear y'"
  using DayFromYear_mono_aux [of y "nat (y' - y)"] by simp

lemma DayFromYear_strict: "y < y' \<Longrightarrow> DayFromYear y < DayFromYear y'"
  using DayFromYear_grow [of y y'] by simp

lemma DayFromYear_expand:
  "400 * DayFromYear y = 146097 * (y - 1970) + 193
     - 100 * ((y - 1969) mod 4) + 4 * ((y - 1901) mod 100) - (y - 1601) mod 400"
proof -
  define a where "a = (y - 1969) div 4"
  define b where "b = (y - 1901) div 100"
  define c where "c = (y - 1601) div 400"
  define r where "r = (y - 1969) mod 4"
  define s where "s = (y - 1901) mod 100"
  define t where "t = (y - 1601) mod 400"
  have "y - 1969 = 4 * a + r"
    by (simp add: a_def r_def)
  then have 1: "400 * a = 100 * y - 196900 - 100 * r" by simp
  have "y - 1901 = 100 * b + s"
    by (simp add: b_def s_def)
  then have 2: "400 * b = 4 * y - 7604 - 4 * s" by simp
  have "y - 1601 = 400 * c + t"
    by (simp add: c_def t_def)
  then have 3: "400 * c = y - 1601 - t" by simp
  have "DayFromYear y = 365 * (y - 1970) + a - b + c"
    by (simp add: DayFromYear_def a_def b_def c_def)
  then have "400 * DayFromYear y = 146000 * (y - 1970) + 400 * a - 400 * b + 400 * c"
    by simp
  also have "\<dots> = 146097 * (y - 1970) + 193 - 100 * r + 4 * s - t"
    unfolding 1 2 3 by simp
  finally show ?thesis
    by (simp only: r_def s_def t_def)
qed

lemma DayFromYear_lower: "146097 * (y - 1970) - 506 \<le> 400 * DayFromYear y"
proof -
  have "(y - 1969) mod 4 \<le> 3" "0 \<le> (y - 1901) mod 100" "(y - 1601) mod 400 \<le> 399"
    by simp_all
  then show ?thesis unfolding DayFromYear_expand by linarith
qed

lemma DayFromYear_upper: "400 * DayFromYear y \<le> 146097 * (y - 1970) + 589"
proof -
  have "0 \<le> (y - 1969) mod 4" "(y - 1901) mod 100 \<le> 99" "0 \<le> (y - 1601) mod 400"
    by simp_all
  then show ?thesis unfolding DayFromYear_expand by linarith
qed

lemma getFullYear_cases:
  "getFullYear d =
     (if DayFromYear (1970 + (400 * d) div 146097 + 1) \<le> d then 1970 + (400 * d) div 146097 + 1
      else if d < DayFromYear (1970 + (400 * d) div 146097) then 1970 + (400 * d) div 146097 - 1
      else 1970 + (400 * d) div 146097)"
  by (simp only: getFullYear_def Let_def)

lemma getFullYear_bounds:
  "DayFromYear (getFullYear d) \<le> d \<and> d < DayFromYear (getFullYear d + 1)"
proof -
  define q where "q = (400 * d) div 146097"
  define r where "r = (400 * d) mod 146097"
  define y0 where "y0 = 1970 + q"
  have "400 * d = 146097 * q + r"
    by (simp add: q_def r_def)
  moreover have "0 \<le> r" "r < 146097"
    by (simp_all add: r_def)
  ultimately have q: "146097 * q \<le> 400 * d" "400 * d < 146097 * q + 146097"
    by linarith+
  have g: "getFullYear d =
     (if DayFromYear (y0 + 1) \<le> d then y0 + 1
      else if d < DayFromYear y0 then y0 - 1 else y0)"
    by (simp only: getFullYear_cases y0_def q_def)
  have up: "146097 * q + 291688 \<le> 400 * DayFromYear (y0 + 1 + 1)"
    using DayFromYear_lower [of "y0 + 1 + 1"] by (simp add: y0_def)
  have lo: "400 * DayFromYear (y0 - 1) \<le> 146097 * q - 145508"
    using DayFromYear_upper [of "y0 - 1"] by (simp add: y0_def)
  show ?thesis
  proof (cases "DayFromYear (y0 + 1) \<le> d")
    case True
    have "d < DayFromYear (y0 + 1 + 1)"
      using up q by linarith
    with True show ?thesis by (simp only: g if_True simp_thms)
  next
    case False
    note F = this
    show ?thesis
    proof (cases "d < DayFromYear y0")
      case True
      have "DayFromYear (y0 - 1) \<le> d"
        using lo q by linarith
      moreover have "y0 - 1 + 1 = y0" by simp
      ultimately show ?thesis using True F by (simp only: g if_True if_False simp_thms)
    next
      case False
      with F show ?thesis by (simp add: g)
    qed
  qed
qed


lemma getMonth_range: "0 \<le> getMonth d \<and> getMonth d \<le> 11"
  by (simp add: getMonth_def Let_def)

lemma MakeDay_in_year:
  "0 \<le> m \<Longrightarrow> m \<le> 11 \<Longrightarrow> MakeDay y m n = DayFromYear y + monthStart y m + n - 1"
  by (simp add: MakeDay_def Let_def)

lemma newDate_in_year:
  "0 \<le> m \<Longrightarrow> m \<le> 11 \<Longrightarrow>
     newDate y m n = DayFromYear (fullYear y) + monthStart (fullYear y) m + n - 1"
  by (simp add: newDate_def MakeDay_in_year)

lemma setDate_getDate: "setDate d (getDate d + k) = d + k"
proof -
  have "setDate d (getDate d + k) =
      DayFromYear (getFullYear d) + monthStart (getFullYear d) (getMonth d) + (getDate d + k) - 1"
    unfolding setDate_def using getMonth_range [of d] by (simp add: MakeDay_in_year)
  then show ?thesis
    by (simp add: getDate_def DayWithinYear_def)
qed

section \<open>Rounding and time values\<close>

lemma Math_floor_of_int: "Math_floor (of_int a / of_int b) = a div b"
  by (simp add: Math_floor_def floor_divide_of_int_eq)

lemma Math_floor_7: "Math_floor (of_int a / 7) = a div 7"
  using Math_floor_of_int [of a 7] by simp

lemma Math_ceil_4: "Math_ceil (of_int a / 4) = - ((- a) div 4)"
proof -
  have "\<lceil>(of_int a / of_int 4 :: rat)\<rceil> = - \<lfloor>- (of_int a / of_int 4 :: rat)\<rfloor>"
    by (simp add: ceiling_def)
  also have "- (of_int a / of_int 4 :: rat) = of_int (- a) / of_int 4"
    by simp
  also have "\<lfloor>(of_int (- a) / of_int 4 :: rat)\<rfloor> = (- a) div 4"
    by (rule floor_divide_of_int_eq)
  finally show ?thesis by (simp add: Math_ceil_def)
qed

lemma Math_round_of_int:
  assumes "0 < b"
  shows "Math_round (of_int a / of_int b) = (2 * a + b) div (2 * b)"
proof -
  have "(of_int a / of_int b :: rat) + 1 / 2 = of_int (2 * a + b) / of_int (2 * b)"
    using assms by (simp add: field_simps)
  then show ?thesis
    by (simp only: Math_round_def floor_divide_of_int_eq)
qed

lemma div_near:
  fixes k e m :: int
  assumes "0 \<le> e" "e < m"
  shows "(k * m + e) div m = k"
proof -
  have "k * m + e = m * k + e" by simp
  then show ?thesis using assms int_div_pos_eq by blast
qed

lemma offset_diff: "\<bar>offset z a - offset z b\<bar> \<le> msPerHour"
  by (simp add: offset_def msPerHour_def)

lemma getTime_diff:
  "getTime z a - getTime z b = (a - b) * msPerDay - (offset z a - offset z b)"
  by (simp add: getTime_def algebra_simps)

lemma days_between:
  "Math_round (of_int (getTime z a - getTime z b) / of_int msPerDay) = a - b"
proof -
  define e where "e = offset z a - offset z b"
  have e: "- 3600000 \<le> e" "e \<le> 3600000"
    using offset_diff [of z a b] by (simp_all add: e_def msPerHour_def)
  have eq: "2 * (getTime z a - getTime z b) + msPerDay
      = (a - b) * (2 * msPerDay) + (msPerDay - 2 * e)"
    by (simp add: getTime_diff e_def algebra_simps)
  have b1: "0 \<le> msPerDay - 2 * e" and b2: "msPerDay - 2 * e < 2 * msPerDay"
    using e by (simp_all add: msPerDay_def)
  have "((a - b) * (2 * msPerDay) + (msPerDay - 2 * e)) div (2 * msPerDay) = a - b"
    by (rule div_near [OF b1 b2])
  then have "(2 * (getTime z a - getTime z b) + msPerDay) div (2 * msPerDay) = a - b"
    by (simp only: eq)
  moreover have "0 < msPerDay" by (simp add: msPerDay_def)
  ultimately show ?thesis by (simp only: Math_round_of_int)
qed

lemma getTime_less_iff: "getTime z a < getTime z b \<longleftrightarrow> a < b"
proof -
  define e where "e = offset z a - offset z b"
  have e: "- 3600000 \<le> e" "e \<le> 3600000"
    using offset_diff [of z a b] by (simp_all add: e_def msPerHour_def)
  have g: "getTime z a - getTime z b = (a - b) * 86400000 - e"
    by (simp add: getTime_diff e_def msPerDay_def)
  show ?thesis
  proof
    assume "getTime z a < getTime z b"
    with g have "(a - b) * 86400000 < e" by linarith
    with e have "(a - b) * 86400000 < 86400000" by linarith        
    then have "a - b < 1" by simp
    then have "a \<le> b" by simp
    moreover have "a \<noteq> b"
      using \<open>getTime z a < getTime z b\<close> by auto
    ultimately show "a < b" by simp
  next
    assume "a < b"
    then have "a - b \<le> - 1" by simp
    then have "(a - b) * 86400000 \<le> - 1 * 86400000"
      by (rule mult_right_mono) simp
    with e g show "getTime z a < getTime z b" by linarith
  qed
qed

lemma getTime_le_iff: "getTime z a \<le> getTime z b \<longleftrightarrow> a \<le> b"
  using getTime_less_iff [of z b a] by auto

section \<open>Paydays\<close>




lemma referencePayday_day: "newDate 2025 11 5 = 20427"
  by code_simp


lemma getNextPayday_eq:
  "getNextPayday z d =
     d + (if (d - 20427) smod 28 = 0 then 0 else 28 - (d - 20427) smod 28)"
proof -
  have "getNextPayday z d =
      d + (if 28 - (d - 20427) smod 28 = 28 then 0 else 28 - (d - 20427) smod 28)"
    by (simp only: getNextPayday_def Let_def days_between referencePayday_day setDate_getDate)
  then show ?thesis by simp
qed



lemma getNextPayday_from_reference:
  assumes "newDate 2025 11 5 \<le> d"
  shows "getNextPayday z d = spec_getNextPayday d"
proof -
  have "0 \<le> d - 20427" using assms by (simp add: referencePayday_day)
  then have s: "(d - 20427) smod 28 = (d - 20427) mod 28"
    by (simp add: smod_mod_positive)
  define r where "r = (d - 20427) mod 28"
  show ?thesis
    unfolding getNextPayday_eq spec_getNextPayday_def referencePayday_day s Let_def
    unfolding r_def [symmetric] by simp
qed

text \<open>
  C3: the specification computes the days to the next payday with a floor-based modulo, so
  that the day before the reference payday (4 December 2025) is followed by the reference
  payday itself. \<^verbatim>\<open>getNextPayday\<close> uses \<^verbatim>\<open>%\<close>, whose result takes the sign of the
  dividend: for that day it returns 2 January 2026, one cycle of 28 days later.
\<close>

theorem getNextPayday_before_reference:
  "getNextPayday z (newDate 2025 11 4) = newDate 2026 0 2
   \<and> spec_getNextPayday (newDate 2025 11 4) = newDate 2025 11 5
   \<and> newDate 2026 0 2 = newDate 2025 11 5 + 28"
proof -
  have 1: "newDate 2025 11 4 = 20426" by code_simp
  have 2: "newDate 2026 0 2 = 20455" by code_simp
  have 3: "spec_getNextPayday 20426 = 20427" by code_simp
  have 4: "(- 1 :: int) smod 28 = - 1" "(1 :: int) smod 28 = 1" by code_simp+
  show ?thesis
    by (simp add: 1 2 3 4 referencePayday_day getNextPayday_eq)
qed



section \<open>The start of the railway year\<close>

lemma leapDay_range: "0 \<le> leapDay y \<and> leapDay y \<le> 1"
  by (simp add: leapDay_def)


lemma fullYear_literal: "Y < 0 \<or> 99 < Y \<Longrightarrow> fullYear Y = Y"
  by (auto simp add: fullYear_def)

lemma fullYear_ge: "Y \<le> fullYear Y"
  by (simp add: fullYear_def)

lemma newDate_march:
  "newDate Y 2 n = DayFromYear (fullYear Y) + 58 + leapDay (fullYear Y) + n"
  by (simp add: newDate_in_year monthStart_def)

lemma getDay_range: "0 \<le> getDay d \<and> getDay d \<le> 6"
  by (simp add: getDay_def)

lemma getWeekOneStart_eq:
  "getWeekOneStart Y = newDate Y 2 31 - (getDay (newDate Y 2 31) + 1) mod 7"
proof -
  have "0 \<le> getDay (newDate Y 2 31) + 1"
    using getDay_range [of "newDate Y 2 31"] by simp
  then have "(getDay (newDate Y 2 31) + 1) smod 7 = (getDay (newDate Y 2 31) + 1) mod 7"
    by (simp add: smod_mod_positive)
  then show ?thesis
    by (simp add: getWeekOneStart_def Let_def newDate_march)
qed



lemma getWeekOneStart_back:
  "getWeekOneStart Y \<le> newDate Y 2 31 \<and> newDate Y 2 31 - getWeekOneStart Y \<le> 6"
proof -
  have "0 \<le> (getDay (newDate Y 2 31) + 1) mod 7" "(getDay (newDate Y 2 31) + 1) mod 7 < 7"
    by simp_all
  then show ?thesis unfolding getWeekOneStart_eq by linarith
qed







lemma getTotalWeeks_eq:
  "getTotalWeeks z Y = (getWeekOneStart (Y + 1) - getWeekOneStart Y) div 7"
  by (simp only: getTotalWeeks_def Let_def days_between Math_floor_7)


text \<open>
  In UTC the dates made by \<^verbatim>\<open>getWeekOneStart\<close> are valid for every year from -271820 to
  275760, which is the whole range of the years with a valid 31 March.
\<close>

lemma validDate_utc: "validDate utc d \<longleftrightarrow> - 100000000 \<le> d \<and> d \<le> 100000000"
  unfolding validDate_def getTime_def offset_def utc_def msPerDay_def
  by (simp add: abs_le_iff) linarith

lemma weekOneStartValid_utc:
  assumes "- 271820 \<le> Y" "Y \<le> 275760"
  shows "weekOneStartValid utc Y"
proof -
  define y where "y = fullYear Y"
  have y: "- 271820 \<le> y" "y \<le> 275760"
    using assms by (simp_all add: y_def fullYear_def)
  have "146097 * y - 287811596 \<le> 400 * DayFromYear y"
    using DayFromYear_lower [of y] by (simp add: algebra_simps)
  with y have lo: "- 99999747 \<le> DayFromYear y" by linarith
  have "400 * DayFromYear y \<le> 146097 * y - 287810501"
    using DayFromYear_upper [of y] by (simp add: algebra_simps)
  with y have hi: "DayFromYear y \<le> 99999746" by linarith
  have L: "0 \<le> leapDay y" "leapDay y \<le> 1" using leapDay_range [of y] by simp_all
  have m: "newDate Y 2 31 = DayFromYear y + 58 + leapDay y + 31"
    by (simp only: newDate_march y_def)
  have "- 100000000 \<le> newDate Y 2 31" "newDate Y 2 31 \<le> 100000000"
    using lo hi L unfolding m by linarith+
  moreover have "- 100000000 \<le> getWeekOneStart Y" "getWeekOneStart Y \<le> 100000000"
    using lo hi L getWeekOneStart_back [of Y] unfolding m by linarith+
  ultimately show ?thesis
    by (simp add: weekOneStartValid_def validDate_utc)
qed







section \<open>From a date to the railway calendar and back\<close>

lemma dateToRailway_year:
  "railwayYear (dateToRailway z d) =
     (if d < getWeekOneStart (getFullYear d) then getFullYear d - 1
      else if getWeekOneStart (getFullYear d + 1) \<le> d then getFullYear d + 1
      else getFullYear d)"
  by (simp add: dateToRailway_def Let_def getTime_less_iff getTime_le_iff)

lemma dateToRailway_start:
  "weekOneStart (dateToRailway z d) = getWeekOneStart (railwayYear (dateToRailway z d))"
  by (simp add: dateToRailway_def Let_def getTime_less_iff getTime_le_iff)

lemma dateToRailway_week:
  "railWeek (dateToRailway z d) =
     ((getTime z d - getTime z (weekOneStart (dateToRailway z d))) div msPerDay) div 7 + 1"
  by (simp only: dateToRailway_def Let_def Math_floor_of_int Math_floor_7 split_def
        RailwayCoordinate.simps)

lemma dateToRailway_day:
  "dayOfRailWeek (dateToRailway z d) =
     ((getTime z d - getTime z (weekOneStart (dateToRailway z d))) div msPerDay) smod 7 + 1"
  by (simp only: dateToRailway_def Let_def Math_floor_of_int Math_floor_7 split_def
        RailwayCoordinate.simps)

lemma dateToRailway_period:
  "period (dateToRailway z d) = - ((- railWeek (dateToRailway z d)) div 4)
   \<and> period (dateToRailway z d) = Math_ceil (of_int (railWeek (dateToRailway z d)) / 4)
   \<and> weekInPeriod (dateToRailway z d) = (railWeek (dateToRailway z d) - 1) smod 4 + 1"
  by (simp only: dateToRailway_def Let_def Math_ceil_4 [symmetric] split_def
        RailwayCoordinate.simps simp_thms)

lemma railwayToDateRange_eq:
  "startDate (railwayToDateRange Y W) = getWeekOneStart Y + (W - 1) * 7"
  "endDate (railwayToDateRange Y W) = getWeekOneStart Y + (W - 1) * 7 + 6"
  by (simp_all add: railwayToDateRange_def Let_def setDate_getDate)


lemma getWeekOneStart_in_year:
  "DayFromYear (fullYear y) < getWeekOneStart y
   \<and> getWeekOneStart y < DayFromYear (fullYear y + 1)"
proof -
  have L: "0 \<le> leapDay (fullYear y)" using leapDay_range [of "fullYear y"] by simp
  have "newDate y 2 31 = DayFromYear (fullYear y) + 89 + leapDay (fullYear y)"
    by (simp add: newDate_march)
  then show ?thesis
    using getWeekOneStart_back [of y] L DayFromYear_Suc [of "fullYear y"] by linarith
qed

lemma DayFromYear_mono: "y \<le> y' \<Longrightarrow> DayFromYear y \<le> DayFromYear y'"
  using DayFromYear_strict [of y y'] by (cases "y = y'") simp_all

text \<open>
  The railway year of a date is the year whose week one starts on or before the date,
  when the year before the calendar year of the date is not one that the constructor
  reads as a year of the twentieth century.
\<close>

lemma railwayYear_bounds:
  assumes "getFullYear d \<le> 0 \<or> 100 < getFullYear d"
  shows "getWeekOneStart (railwayYear (dateToRailway z d)) \<le> d
   \<and> d < getWeekOneStart (railwayYear (dateToRailway z d) + 1)"
proof -
  define y where "y = getFullYear d"
  have b: "DayFromYear y \<le> d" "d < DayFromYear (y + 1)"
    using getFullYear_bounds [of d] by (simp_all add: y_def)
  have r: "railwayYear (dateToRailway z d) =
     (if d < getWeekOneStart y then y - 1
      else if getWeekOneStart (y + 1) \<le> d then y + 1
      else y)"
    by (simp only: dateToRailway_year y_def)
  have "DayFromYear (y + 1) \<le> DayFromYear (fullYear (y + 1))"
    by (rule DayFromYear_mono) (rule fullYear_ge)
  then have n: "\<not> getWeekOneStart (y + 1) \<le> d"
    using getWeekOneStart_in_year [of "y + 1"] b by linarith
  show ?thesis
  proof (cases "d < getWeekOneStart y")
    case True
    have "fullYear (y - 1) = y - 1"
      using assms by (intro fullYear_literal) (auto simp add: y_def)
    then have "getWeekOneStart (y - 1) < DayFromYear y"
      using getWeekOneStart_in_year [of "y - 1"] by simp
    with b True show ?thesis by (simp add: r)
  next
    case False
    with n show ?thesis by (simp add: r)
  qed
qed

lemma railwayYear_unique:
  assumes "Y < - 1 \<or> 99 < Y" "getWeekOneStart Y \<le> d" "d < getWeekOneStart (Y + 1)"
  shows "railwayYear (dateToRailway z d) = Y"
proof -
  define y where "y = getFullYear d"
  have b: "DayFromYear y \<le> d" "d < DayFromYear (y + 1)"
    using getFullYear_bounds [of d] by (simp_all add: y_def)
  have f: "fullYear Y = Y" "fullYear (Y + 1) = Y + 1"
    using assms(1) by (auto simp add: fullYear_def)
  have lo: "DayFromYear Y < d"
    using getWeekOneStart_in_year [of Y] assms(2) by (simp add: f)
  have t: "Y + 1 + 1 = Y + 2" by simp
  have "getWeekOneStart (Y + 1) < DayFromYear (Y + 2)"
    using getWeekOneStart_in_year [of "Y + 1"] unfolding f t by (rule conjunct2)
  with assms(3) have hi: "d < DayFromYear (Y + 2)" by (rule less_trans)
  have "Y \<le> y"
  proof (rule ccontr)
    assume "\<not> Y \<le> y"
    then have "DayFromYear (y + 1) \<le> DayFromYear Y"
      by (intro DayFromYear_mono) simp
    with b lo show False by linarith
  qed
  moreover have "y \<le> Y + 1"
  proof (rule ccontr)
    assume "\<not> y \<le> Y + 1"
    then have "DayFromYear (Y + 2) \<le> DayFromYear y"
      by (intro DayFromYear_mono) simp
    with b hi show False by linarith
  qed
  ultimately have c: "y = Y \<or> y = Y + 1" by linarith
  have r: "railwayYear (dateToRailway z d) =
     (if d < getWeekOneStart y then y - 1
      else if getWeekOneStart (y + 1) \<le> d then y + 1
      else y)"
    by (simp only: dateToRailway_year y_def)
  from c show ?thesis
  proof
    assume "y = Y"
    with assms(2,3) show ?thesis by (simp add: r)
  next
    assume "y = Y + 1"
    with assms(3) show ?thesis by (simp add: r)
  qed
qed

lemma fixed_offset_days:
  assumes "\<forall>a b. dst z a = dst z b"
  shows "(getTime z a - getTime z b) div msPerDay = a - b"
proof -
  have "dst z a = dst z b" using assms by blast
  then have "offset z a = offset z b" by (simp add: offset_def)
  then have "getTime z a - getTime z b = (a - b) * msPerDay"
    by (simp add: getTime_diff)
  then show ?thesis by (simp add: msPerDay_def)
qed

lemma dateToRailway_round_trip_fixed_offset:
  assumes "\<forall>a b. dst z a = dst z b" "1 \<le> W" "W \<le> getTotalWeeks z Y"
    and "Y < - 1 \<or> 99 < Y"
  shows "railWeek (dateToRailway z (startDate (railwayToDateRange Y W))) = W
       \<and> railwayYear (dateToRailway z (startDate (railwayToDateRange Y W))) = Y"
proof -
  define s where "s = getWeekOneStart Y"
  define n where "n = getWeekOneStart (Y + 1) - s"
  define d where "d = s + (W - 1) * 7"
  have d: "startDate (railwayToDateRange Y W) = d"
    by (simp add: railwayToDateRange_eq d_def s_def)
  have "W \<le> n div 7"
    using assms(3) by (simp add: getTotalWeeks_eq n_def s_def)
  moreover have "7 * (n div 7) \<le> n"
    by simp
  ultimately have "7 * W \<le> n" by linarith
  then have 1: "s \<le> d" "d < getWeekOneStart (Y + 1)"
    using assms(2) by (simp_all add: d_def n_def)
  have y: "railwayYear (dateToRailway z d) = Y"
    using assms(4) 1 unfolding s_def by (rule railwayYear_unique)
  have "railWeek (dateToRailway z d) = (d - s) div 7 + 1"
    by (simp only: dateToRailway_week dateToRailway_start y fixed_offset_days [OF assms(1)] s_def)
  also have "\<dots> = W"
    by (simp add: d_def)
  finally show ?thesis
    using y by (simp only: d simp_thms)
qed

lemma dateToRailway_invariant_fixed_offset:
  assumes "\<forall>a b. dst z a = dst z b" "getFullYear d \<le> 0 \<or> 100 < getFullYear d"
  shows "weekOneStart (dateToRailway z d)
           \<le> startDate (railwayToDateRange (railwayYear (dateToRailway z d))
                 (railWeek (dateToRailway z d)))
       \<and> startDate (railwayToDateRange (railwayYear (dateToRailway z d))
                 (railWeek (dateToRailway z d))) \<le> d
       \<and> d \<le> endDate (railwayToDateRange (railwayYear (dateToRailway z d))
                 (railWeek (dateToRailway z d)))
       \<and> period (dateToRailway z d) = \<lceil>of_int (railWeek (dateToRailway z d)) / (4 :: rat)\<rceil>
       \<and> weekInPeriod (dateToRailway z d) = (railWeek (dateToRailway z d) - 1) mod 4 + 1"
proof -
  define c where "c = dateToRailway z d"
  define s where "s = getWeekOneStart (railwayYear c)"
  define k where "k = (d - s) div 7"
  have s: "s \<le> d"
    using railwayYear_bounds [OF assms(2), of z] by (simp add: s_def c_def)
  have w: "weekOneStart c = s"
    by (simp only: c_def s_def dateToRailway_start)
  have "railWeek c = (d - s) div 7 + 1"
    by (simp only: c_def dateToRailway_week dateToRailway_start
          fixed_offset_days [OF assms(1)] s_def)
  then have rw: "railWeek c = k + 1" by (simp add: k_def)
  have k: "0 \<le> k" "7 * k \<le> d - s" "d - s < 7 * k + 7"
    using s by (simp_all add: k_def)
  have r: "startDate (railwayToDateRange (railwayYear c) (railWeek c)) = s + 7 * k"
    "endDate (railwayToDateRange (railwayYear c) (railWeek c)) = s + 7 * k + 6"
    by (simp_all add: railwayToDateRange_eq s_def rw)
  have p: "period c = \<lceil>of_int (railWeek c) / (4 :: rat)\<rceil>"
    using dateToRailway_period [of z d] by (simp add: c_def Math_ceil_def)
  have "(railWeek c - 1) smod 4 = (railWeek c - 1) mod 4"
    using k by (simp add: rw smod_mod_positive)
  then have q: "weekInPeriod c = (railWeek c - 1) mod 4 + 1"
    using dateToRailway_period [of z d] by (simp add: c_def)
  show ?thesis
    unfolding c_def [symmetric] w r using k p q by simp
qed

section \<open>The railway calendar in London\<close>

text \<open>
  \<^verbatim>\<open>dateToRailway\<close> takes the days since week one with \<^verbatim>\<open>Math.floor\<close>, where
  \<^verbatim>\<open>isPayday\<close>, \<^verbatim>\<open>getNextPayday\<close> and \<^verbatim>\<open>getTotalWeeks\<close> use \<^verbatim>\<open>Math.round\<close>. In London the
  railway year 2025 starts on Saturday 29 March 2025, in winter time, and summer time
  starts the day after: the local midnight of 5 April 2025 is 6 days and 23 hours after
  the start of week one, and \<^verbatim>\<open>Math.floor\<close> makes that 6 days.
\<close>

lemma getWeekOneStart_2025: "getWeekOneStart 2025 = 20176" by code_simp
lemma getWeekOneStart_2026: "getWeekOneStart 2026 = 20540" by code_simp
lemma getFullYear_5_April_2025: "getFullYear 20183 = 2025" by code_simp
lemma getTime_london_5_April_2025: "getTime london 20183 = 1743807600000" by code_simp
lemma getTime_london_29_March_2025: "getTime london 20176 = 1743206400000" by code_simp
lemma days_April_2025: "newDate 2025 3 5 = 20183" "newDate 2025 3 4 = 20182" by code_simp+

lemma railwayYear_london_5_April_2025: "railwayYear (dateToRailway london 20183) = 2025"
  by (simp add: dateToRailway_year getWeekOneStart_2025 getWeekOneStart_2026 getFullYear_5_April_2025)
lemma railWeek_london_5_April_2025: "railWeek (dateToRailway london 20183) = 1"
  by (simp add: dateToRailway_week dateToRailway_start railwayYear_london_5_April_2025 getWeekOneStart_2025 getTime_london_5_April_2025 getTime_london_29_March_2025 msPerDay_def)
lemma dayOfRailWeek_london_5_April_2025: "dayOfRailWeek (dateToRailway london 20183) = 7"
  by (simp add: dateToRailway_day dateToRailway_start railwayYear_london_5_April_2025 getWeekOneStart_2025 getTime_london_5_April_2025 getTime_london_29_March_2025 msPerDay_def)


text \<open>
  C1: the round trip from a week to its start date and back does not hold in London.
  Week 2 of the railway year 2025 is in range (the year has 52 weeks) and starts on
  5 April 2025, a Saturday; \<^verbatim>\<open>dateToRailway\<close> puts that date in week 1, as its day 7.
  In a time zone whose offset never changes the round trip holds for the railway years
  below -1 and above 99 (\<open>dateToRailway_round_trip_fixed_offset\<close>).
\<close>

theorem dateToRailway_round_trip_london:
  "2 \<le> getTotalWeeks london 2025
   \<and> startDate (railwayToDateRange 2025 2) = newDate 2025 3 5
   \<and> railWeek (dateToRailway london (startDate (railwayToDateRange 2025 2))) = 1
   \<and> dayOfRailWeek (dateToRailway london (startDate (railwayToDateRange 2025 2))) = 7"
proof -
  have "getTotalWeeks london 2025 = 52"
    by (simp add: getTotalWeeks_eq getWeekOneStart_2025 getWeekOneStart_2026)
  then show ?thesis
    by (simp add: railwayToDateRange_eq getWeekOneStart_2025 days_April_2025
        railWeek_london_5_April_2025 dayOfRailWeek_london_5_April_2025)
qed


text \<open>
  C2: the week that \<^verbatim>\<open>dateToRailway\<close> returns does not always contain the date. In London,
  for 5 April 2025 the week returned ends on 4 April 2025. In a time zone whose offset
  never changes the invariant holds for the dates of the years up to 0 and after 100
  (\<open>dateToRailway_invariant_fixed_offset\<close>).
\<close>

theorem dateToRailway_week_range_london:
  "endDate (railwayToDateRange (railwayYear (dateToRailway london (newDate 2025 3 5)))
      (railWeek (dateToRailway london (newDate 2025 3 5)))) = newDate 2025 3 4
   \<and> newDate 2025 3 4 < newDate 2025 3 5"
  by (simp add: days_April_2025 railwayYear_london_5_April_2025 railWeek_london_5_April_2025 railwayToDateRange_eq getWeekOneStart_2025)

section \<open>Christmas Day in the holiday table\<close>

lemma newDate_december: "newDate y 11 n = newDate y 11 25 + (n - 25)"
  by (simp add: newDate_in_year)

lemma christmas_entry:
  "filter (\<lambda>e. name e = ''Christmas Day'') (getUKBankHolidays year) =
     [\<lparr>date = (if getDay (newDate year 11 25) = 6 then newDate year 11 27
               else if getDay (newDate year 11 25) = 0 then newDate year 11 27
               else newDate year 11 25),
       name = ''Christmas Day'', emoji = utf8 [240, 159, 142, 132], type = ''bank''\<rparr>]"
  by (simp add: getUKBankHolidays_def Let_def)

lemma weekend_plus_two:
  fixes D :: int
  shows "(D + 4) mod 7 = 6 \<Longrightarrow> (D + 2 + 4) mod 7 = 1"
    and "(D + 4) mod 7 = 0 \<Longrightarrow> (D + 2 + 4) mod 7 = 2"
  by presburger+

lemma christmas_weekday:
  "1 \<le> getDay (if getDay (newDate year 11 25) = 6 then newDate year 11 27
               else if getDay (newDate year 11 25) = 0 then newDate year 11 27
               else newDate year 11 25)
   \<and> getDay (if getDay (newDate year 11 25) = 6 then newDate year 11 27
               else if getDay (newDate year 11 25) = 0 then newDate year 11 27
               else newDate year 11 25) \<le> 5"
proof -
  define D where "D = newDate year 11 25"
  have e: "newDate year 11 27 = D + 2"
    using newDate_december [of year 27] by (simp add: D_def)
  have r: "0 \<le> getDay D" "getDay D \<le> 6"
    using getDay_range [of D] by simp_all
  have "getDay D = 6 \<Longrightarrow> getDay (D + 2) = 1"
    unfolding getDay_def by (rule weekend_plus_two(1))
  moreover have "getDay D = 0 \<Longrightarrow> getDay (D + 2) = 2"
    unfolding getDay_def by (rule weekend_plus_two(2))
  ultimately have "getDay D = 6 \<Longrightarrow> getDay (D + 2) = 1"
      "getDay D = 0 \<Longrightarrow> getDay (D + 2) = 2"
    by simp_all
  then show ?thesis
    unfolding D_def [symmetric] e using r by auto
qed


text \<open>
  C7: \<^verbatim>\<open>getUKBankHolidays(year)\<close> has exactly one entry named "Christmas Day"; its date is
  on a weekday from Monday (1) to Friday (5), never a Saturday or a Sunday, and it is
  25 December or a later day up to 27 December.
\<close>

theorem getUKBankHolidays_christmas:
  "\<exists>h. filter (\<lambda>e. name e = ''Christmas Day'') (getUKBankHolidays year) = [h]
       \<and> 1 \<le> getDay (date h) \<and> getDay (date h) \<le> 5
       \<and> newDate year 11 25 \<le> date h \<and> date h \<le> newDate year 11 27"
proof -
  have "newDate year 11 27 = newDate year 11 25 + 2"
    using newDate_december [of year 27] by simp
  then show ?thesis
    unfolding christmas_entry using christmas_weekday [of year] by simp
qed

section \<open>Rounding to the nearest double\<close>

lemma roundHalfEven_le: "q \<le> of_int N \<Longrightarrow> roundHalfEven q \<le> N"
proof -
  assume a: "q \<le> of_int N"
  then have f: "\<lfloor>q\<rfloor> \<le> N" by (simp add: floor_le_iff)
  show ?thesis
  proof (cases "\<lfloor>q\<rfloor> = N")
    case True
    then have "q - of_int \<lfloor>q\<rfloor> \<le> 0" using a by simp
    then have "q - of_int \<lfloor>q\<rfloor> < 1 / 2" by linarith
    then show ?thesis using True by (simp add: roundHalfEven_def Let_def)
  next
    case False
    with f have "\<lfloor>q\<rfloor> + 1 \<le> N" by simp
    then show ?thesis by (simp add: roundHalfEven_def Let_def)
  qed
qed

lemma roundHalfEven_ge: "of_int N \<le> q \<Longrightarrow> N \<le> roundHalfEven q"
proof -
  assume "of_int N \<le> q"
  then have "N \<le> \<lfloor>q\<rfloor>" by (simp add: le_floor_iff)
  then show ?thesis by (simp add: roundHalfEven_def Let_def)
qed

lemma pow2_add: "(2 :: rat) powi (a + b) = 2 powi a * 2 powi b"
  by (simp add: power_int_add)

lemma pow2_diff: "(2 :: rat) powi (a - b) = 2 powi a / 2 powi b"
  by (simp add: power_int_diff)

lemma pow2_pos: "(0 :: rat) < 2 powi a"
  by simp

lemma pow2_52: "(2 :: rat) powi e = 2 ^ 52 * 2 powi (e - 52)"
proof -
  have "(2 :: rat) powi (52 + (e - 52)) = 2 powi 52 * 2 powi (e - 52)" by (rule pow2_add)
  then show ?thesis by simp
qed

lemma pow2_53: "(2 :: rat) powi (e + 1) = 2 ^ 53 * 2 powi (e - 52)"
proof -
  have a: "e + 1 = 53 + (e - 52)" by simp
  show ?thesis by (subst a, subst pow2_add) simp
qed

lemma bitlen_bounds_rat:
  assumes "0 < p"
  shows "2 powi (bitlen p - 1) \<le> (of_int p :: rat)" "(of_int p :: rat) < 2 powi (bitlen p)"
proof -
  have b: "1 \<le> bitlen p" using assms by (simp add: bitlen_alt_def)
  have "2 ^ nat (bitlen p - 1) \<le> p" "p < 2 ^ nat (bitlen p)"
    using bitlen_bounds [OF assms] by simp_all
  then have "(of_int (2 ^ nat (bitlen p - 1)) :: rat) \<le> of_int p"
    "(of_int p :: rat) < of_int (2 ^ nat (bitlen p))"
    by (simp_all only: of_int_le_iff of_int_less_iff)
  then show "2 powi (bitlen p - 1) \<le> (of_int p :: rat)" "(of_int p :: rat) < 2 powi (bitlen p)"
    using b by (simp_all add: power_int_def)
qed

lemma expo_bounds:
  assumes "x \<noteq> 0"
  shows "2 powi (expo x) \<le> \<bar>x\<bar> \<and> \<bar>x\<bar> < 2 powi (expo x + 1)"
proof -
  define a where "a = \<bar>x\<bar>"
  obtain p q where pq: "quotient_of a = (p, q)" by (cases "quotient_of a")
  have a: "0 < a" using assms by (simp add: a_def)
  have q: "0 < q" using pq by (rule quotient_of_denom_pos)
  have e: "a = of_int p / of_int q" using pq by (rule quotient_of_div)
  have p: "0 < p"
    using a q unfolding e by (simp add: zero_less_divide_iff)
  define k where "k = bitlen p - bitlen q"
  have 1: "a < 2 powi (k + 1)"
  proof -
    have "of_int p < (2 :: rat) powi (bitlen p)"
      using bitlen_bounds_rat [OF p] by simp
    moreover have "(2 :: rat) powi (bitlen q - 1) \<le> of_int q"
      using bitlen_bounds_rat [OF q] by simp
    moreover have "(0 :: rat) < 2 powi (bitlen q - 1)" by simp
    ultimately have "of_int p / of_int q < (2 :: rat) powi (bitlen p) / 2 powi (bitlen q - 1)"
      using p by (intro frac_less) simp_all
    also have "(2 :: rat) powi (bitlen p) / 2 powi (bitlen q - 1) = 2 powi (bitlen p - (bitlen q - 1))"
      by (simp only: pow2_diff)
    also have "bitlen p - (bitlen q - 1) = k + 1"
      by (simp add: k_def)
    finally show ?thesis by (simp only: e)
  qed
  have 2: "2 powi (k - 1) \<le> a"
  proof -
    have "(2 :: rat) powi (bitlen p - 1) \<le> of_int p"
      using bitlen_bounds_rat [OF p] by simp
    moreover have "of_int q \<le> (2 :: rat) powi (bitlen q)"
      using bitlen_bounds_rat [OF q] by simp
    moreover have "(0 :: rat) < 2 powi (bitlen p - 1)" by simp
    ultimately have "(2 :: rat) powi (bitlen p - 1) / 2 powi (bitlen q) \<le> of_int p / of_int q"
      using p q by (intro frac_le) simp_all
    moreover have "(2 :: rat) powi (bitlen p - 1) / 2 powi (bitlen q) = 2 powi (bitlen p - 1 - bitlen q)"
      by (simp only: pow2_diff)
    moreover have "bitlen p - 1 - bitlen q = k - 1"
      by (simp add: k_def)
    ultimately show ?thesis by (simp only: e)
  qed
  have x: "expo x = (if 2 powi k \<le> a then k else k - 1)"
    by (simp add: expo_def a_def [symmetric] pq k_def Let_def)
  show ?thesis
  proof (cases "2 powi k \<le> a")
    case True
    with 1 x show ?thesis by (simp add: a_def)
  next
    case False
    with 2 x show ?thesis by (simp add: a_def)
  qed
qed


lemma fl_form:
  assumes "x \<noteq> 0"
  shows "fl x = of_int (roundHalfEven (x / 2 powi (expo x - 52))) * 2 powi (expo x - 52)"
  using assms by (simp add: fl_def Let_def)

lemma fl_mantissa_pos:
  assumes "0 < x"
  shows "2 ^ 52 \<le> roundHalfEven (x / 2 powi (expo x - 52))"
    and "roundHalfEven (x / 2 powi (expo x - 52)) \<le> 2 ^ 53"
proof -
  define u :: rat where "u = 2 powi (expo x - 52)"
  have u: "0 < u" by (simp add: u_def)
  have x: "x \<noteq> 0" using assms by simp
  have e1: "2 powi (expo x) = 2 ^ 52 * u"
    unfolding u_def by (rule pow2_52)
  have e2: "2 powi (expo x + 1) = 2 ^ 53 * u"
    unfolding u_def by (rule pow2_53)
  have "2 ^ 52 * u \<le> x" "x < 2 ^ 53 * u"
    using expo_bounds [OF x] assms unfolding e1 e2 by simp_all
  then have "2 ^ 52 \<le> x / u" "x / u \<le> 2 ^ 53"
    using u by (simp_all add: field_simps)
  then have a: "of_int (2 ^ 52) \<le> x / u" and b: "x / u \<le> of_int (2 ^ 53)"
    by simp_all
  show "2 ^ 52 \<le> roundHalfEven (x / 2 powi (expo x - 52))"
    unfolding u_def [symmetric] using a by (rule roundHalfEven_ge)
  show "roundHalfEven (x / 2 powi (expo x - 52)) \<le> 2 ^ 53"
    unfolding u_def [symmetric] using b by (rule roundHalfEven_le)
qed

lemma fl_mantissa_neg:
  assumes "x < 0"
  shows "roundHalfEven (x / 2 powi (expo x - 52)) \<le> - (2 ^ 52)"
    and "- (2 ^ 53) \<le> roundHalfEven (x / 2 powi (expo x - 52))"
proof -
  define u :: rat where "u = 2 powi (expo x - 52)"
  have u: "0 < u" by (simp add: u_def)
  have x: "x \<noteq> 0" using assms by simp
  have e1: "2 powi (expo x) = 2 ^ 52 * u"
    unfolding u_def by (rule pow2_52)
  have e2: "2 powi (expo x + 1) = 2 ^ 53 * u"
    unfolding u_def by (rule pow2_53)
  have "2 ^ 52 * u \<le> - x" "- x < 2 ^ 53 * u"
    using expo_bounds [OF x] assms unfolding e1 e2 by simp_all
  then have "x / u \<le> - (2 ^ 52)" "- (2 ^ 53) \<le> x / u"
    using u by (simp_all add: field_simps)
  then have a: "x / u \<le> of_int (- (2 ^ 52))" and b: "of_int (- (2 ^ 53)) \<le> x / u"
    by simp_all
  show "roundHalfEven (x / 2 powi (expo x - 52)) \<le> - (2 ^ 52)"
    unfolding u_def [symmetric] using a by (rule roundHalfEven_le)
  show "- (2 ^ 53) \<le> roundHalfEven (x / 2 powi (expo x - 52))"
    unfolding u_def [symmetric] using b by (rule roundHalfEven_ge)
qed

lemma fl_nonneg: "0 \<le> x \<Longrightarrow> 0 \<le> fl x"
proof (cases "x = 0")
  case True
  then show ?thesis by (simp add: fl_def)
next
  case False
  assume "0 \<le> x"
  with False have x: "0 < x" by simp
  have "0 \<le> roundHalfEven (x / 2 powi (expo x - 52))"
    using fl_mantissa_pos(1) [OF x] by simp
  then show ?thesis
    unfolding fl_form [OF False] by simp
qed

lemma pow2_nat: "0 \<le> k \<Longrightarrow> (2 :: rat) powi k = of_int (2 ^ nat k)"
  by (simp add: power_int_def)

lemma pow2_shift: "a \<le> b \<Longrightarrow> (2 :: rat) powi b = of_int (2 ^ nat (b - a)) * 2 powi a"
proof -
  assume "a \<le> b"
  then have "(2 :: rat) powi (b - a) = of_int (2 ^ nat (b - a))"
    by (simp add: pow2_nat)
  moreover have "(2 :: rat) powi ((b - a) + a) = 2 powi (b - a) * 2 powi a"
    by (rule pow2_add)
  ultimately show ?thesis by simp
qed

lemma pow2_mono: "a \<le> b \<Longrightarrow> (2 :: rat) powi a \<le> 2 powi b"
  by (rule power_int_increasing) simp_all

lemma pow2_less_cancel: "(2 :: rat) powi a < 2 powi b \<Longrightarrow> a < b"
proof (rule ccontr)
  assume l: "(2 :: rat) powi a < 2 powi b" and "\<not> a < b"
  then have "b \<le> a" by simp
  then have "(2 :: rat) powi b \<le> 2 powi a" by (rule pow2_mono)
  with l show False by simp
qed

lemma roundHalfEven_of_int: "roundHalfEven (of_int K) = K"
  using roundHalfEven_le [of "of_int K" K] roundHalfEven_ge [of K "of_int K"] by simp

text \<open>Rounding does not cross a number of the grid \<open>2 powi (- 48)\<close> between 16 and 32.\<close>

lemma fl_le_grid:
  assumes "0 < y" "y \<le> of_int M * 2 powi (- 48)" "M < 2 ^ 53"
  shows "fl y \<le> of_int M * 2 powi (- 48)"
proof -
  define e where "e = expo y"
  define u :: rat where "u = 2 powi (e - 52)"
  define f :: rat where "f = of_int M * 2 powi (- 48)"
  have y: "y \<noteq> 0" using assms(1) by simp
  have u: "0 < u" by (simp add: u_def)
  have b: "2 powi e \<le> y"
    using expo_bounds [OF y] assms(1) by (simp add: e_def)
  have "f < 2 ^ 53 * 2 powi (- 48)"
    unfolding f_def using assms(3) by (intro mult_strict_right_mono) simp_all
  also have "(2 :: rat) ^ 53 * 2 powi (- 48) = 2 powi 5"
    using pow2_add [of 53 "- 48"] by simp
  finally have f32: "f < 2 powi 5" .
  have "(2 :: rat) powi e < 2 powi 5"
    using b assms(2) f32 by (simp add: f_def)
  then have "e < 5" by (rule pow2_less_cancel)
  then have "e - 52 \<le> - 48" by simp
  then have "(2 :: rat) powi (- 48) = of_int (2 ^ nat (- 48 - (e - 52))) * u"
    unfolding u_def by (rule pow2_shift)
  then have g: "f = of_int (M * 2 ^ nat (- 48 - (e - 52))) * u"
    by (simp add: f_def)
  have "y \<le> f" unfolding f_def by (rule assms(2))
  moreover have "0 \<le> u" using u by simp
  ultimately have "y / u \<le> f / u"
    by (rule divide_right_mono)
  also have "f / u = of_int (M * 2 ^ nat (- 48 - (e - 52)))"
    using u by (simp add: g)
  finally have "roundHalfEven (y / u) \<le> M * 2 ^ nat (- 48 - (e - 52))"
    by (rule roundHalfEven_le)
  then have "(of_int (roundHalfEven (y / u)) :: rat) \<le> of_int (M * 2 ^ nat (- 48 - (e - 52)))"
    by (simp only: of_int_le_iff)
  then have "of_int (roundHalfEven (y / u)) * u \<le> of_int (M * 2 ^ nat (- 48 - (e - 52))) * u"
    using u by (intro mult_right_mono) simp_all
  then show ?thesis
    unfolding fl_form [OF y] e_def [symmetric] u_def [symmetric] g [symmetric] f_def .
qed

text \<open>A rounded number of magnitude at least 16 is on the grid \<open>2 powi (- 48)\<close>.\<close>

lemma fl_on_grid:
  assumes "16 \<le> \<bar>fl q\<bar>"
  shows "\<exists>j. fl q = of_int j * 2 powi (- 48)"
proof -
  define e where "e = expo q"
  define u :: rat where "u = 2 powi (e - 52)"
  define N where "N = roundHalfEven (q / u)"
  have q: "q \<noteq> 0" using assms by (auto simp add: fl_def)
  have u: "0 < u" by (simp add: u_def)
  have x: "fl q = of_int N * u"
    unfolding fl_form [OF q] N_def u_def e_def ..
  have N: "\<bar>N\<bar> \<le> 2 ^ 53"
  proof (cases "0 < q")
    case True
    from fl_mantissa_pos [OF True] show ?thesis
      by (simp add: N_def u_def e_def)
  next
    case False
    with q have "q < 0" by simp
    from fl_mantissa_neg [OF this] show ?thesis
      by (simp add: N_def u_def e_def)
  qed
  show ?thesis
  proof (cases "4 \<le> e")
    case True
    then have "- 48 \<le> e - 52" by simp
    then have "u = of_int (2 ^ nat (e - 52 - (- 48))) * 2 powi (- 48)"
      unfolding u_def by (rule pow2_shift)
    then have "fl q = of_int (N * 2 ^ nat (e - 52 - (- 48))) * 2 powi (- 48)"
      by (simp add: x)
    then show ?thesis by blast
  next
    case False
    then have "e + 1 \<le> 4" by simp
    then have "(2 :: rat) powi (e + 1) \<le> 2 powi 4" by (rule pow2_mono)
    then have t: "2 ^ 53 * u \<le> 16"
      unfolding u_def pow2_53 [symmetric] by simp
    have "(of_int \<bar>N\<bar> :: rat) \<le> of_int (2 ^ 53)"
      using N by (simp only: of_int_le_iff)
    then have "of_int \<bar>N\<bar> * u \<le> 2 ^ 53 * u"
      using u by (intro mult_right_mono) simp_all
    moreover have "\<bar>fl q\<bar> = of_int \<bar>N\<bar> * u"
      using u by (simp add: x abs_mult)
    ultimately have "\<bar>fl q\<bar> = 16"
      using t assms by linarith
    then have "fl q = 16 \<or> fl q = - 16" by linarith
    moreover have "(16 :: rat) = of_int (2 ^ 52) * 2 powi (- 48)"
      using pow2_add [of 52 "- 48"] by simp
    moreover have "(- 16 :: rat) = of_int (- (2 ^ 52)) * 2 powi (- 48)"
      using pow2_add [of 52 "- 48"] by simp
    ultimately show ?thesis by metis
  qed
qed

lemma fl_neg_bound:
  assumes "q \<le> - (2 powi (- 27))"
  shows "fl q \<le> - (2 powi (- 27))"
proof -
  define e where "e = expo q"
  define u :: rat where "u = 2 powi (e - 52)"
  have p: "(0 :: rat) < 2 powi (- 27)" by (rule pow2_pos)
  have n: "q < 0" using assms p by linarith
  then have q: "q \<noteq> 0" by simp
  have u: "0 < u" by (simp add: u_def)
  have "\<bar>q\<bar> < 2 powi (e + 1)"
    using expo_bounds [OF q] by (simp add: e_def)
  then have "(2 :: rat) powi (- 27) < 2 powi (e + 1)"
    using assms n by linarith
  then have "- 27 < e + 1" by (rule pow2_less_cancel)
  then have "- 27 \<le> e" by simp
  then have l: "(2 :: rat) powi (- 27) \<le> 2 powi e" by (rule pow2_mono)
  have "roundHalfEven (q / u) \<le> - (2 ^ 52)"
    using fl_mantissa_neg(1) [OF n] by (simp add: u_def e_def)
  then have "(of_int (roundHalfEven (q / u)) :: rat) \<le> of_int (- (2 ^ 52))"
    by (simp only: of_int_le_iff)
  then have "of_int (roundHalfEven (q / u)) * u \<le> of_int (- (2 ^ 52)) * u"
    using u by (intro mult_right_mono) simp_all
  also have "of_int (- (2 ^ 52)) * u = - (2 powi e)"
    unfolding u_def using pow2_52 [of e] by simp
  finally have "fl q \<le> - (2 powi e)"
    unfolding fl_form [OF q] e_def [symmetric] u_def [symmetric] .
  with l show ?thesis by linarith
qed

lemma fl_of_int: "\<exists>k. fl (of_int n) = of_int k"
proof (cases "n = 0")
  case True
  then show ?thesis by (simp add: fl_def)
next
  case False
  define e where "e = expo (of_int n)"
  define u :: rat where "u = 2 powi (e - 52)"
  have q: "(of_int n :: rat) \<noteq> 0" using False by simp
  have x: "fl (of_int n) = of_int (roundHalfEven (of_int n / u)) * u"
    unfolding fl_form [OF q] u_def e_def ..
  show ?thesis
  proof (cases "52 \<le> e")
    case True
    then have "u = of_int (2 ^ nat (e - 52))"
      unfolding u_def by (simp add: pow2_nat)
    then have "fl (of_int n) = of_int (roundHalfEven (of_int n / u) * 2 ^ nat (e - 52))"
      by (simp add: x)
    then show ?thesis by blast
  next
    case False
    then have "e - 52 \<le> 0" by simp
    then have "(2 :: rat) powi 0 = of_int (2 ^ nat (0 - (e - 52))) * u"
      unfolding u_def by (rule pow2_shift)
    then have i: "1 / u = of_int (2 ^ nat (0 - (e - 52)))"
      by (simp add: field_simps u_def)
    have "of_int n / u = of_int n * (1 / u)" by simp
    also have "\<dots> = of_int (n * 2 ^ nat (0 - (e - 52)))"
      unfolding i by simp
    finally have "roundHalfEven (of_int n / u) = n * 2 ^ nat (0 - (e - 52))"
      by (simp only: roundHalfEven_of_int)
    then have "fl (of_int n) = of_int n * (of_int (2 ^ nat (0 - (e - 52))) * u)"
      by (simp add: x)
    also have "of_int (2 ^ nat (0 - (e - 52))) * u = 1"
      unfolding i [symmetric] by (simp add: u_def)
    finally show ?thesis by simp
  qed
qed

section \<open>The lunar day and the phase\<close>

lemma synodicMonth_grid: "synodicMonth = of_int 8312121758140212 * 2 powi (- 48)"
  by code_simp

lemma synodicMonth_gt_16: "16 < synodicMonth"
  by code_simp

lemma fmod_nonneg:
  assumes "0 < s" "0 \<le> x"
  shows "0 \<le> fmod x s \<and> fmod x s < s"
proof -
  define n where "n = \<lfloor>x / s\<rfloor>"
  have q: "0 \<le> x / s" using assms by simp
  have "of_int n \<le> x / s" "x / s < of_int n + 1"
    using floor_correct [of "x / s"] by (simp_all add: n_def)
  then have "s * of_int n \<le> x" "x < s * of_int n + s"
    using assms(1) by (simp_all add: field_simps)
  moreover have "fmod x s = x - s * of_int n"
    using q by (simp add: fmod_def n_def)
  ultimately show ?thesis by linarith
qed

lemma fmod_neg:
  assumes "0 < s" "x < 0"
  shows "- s < fmod x s \<and> fmod x s \<le> 0"
proof -
  define n where "n = \<lceil>x / s\<rceil>"
  have q: "\<not> 0 \<le> x / s" using assms by (simp add: divide_less_0_iff not_le)
  have "x / s \<le> of_int n" "of_int n - 1 < x / s"
    using ceiling_correct [of "x / s"] by (simp_all add: n_def)
  then have "x \<le> s * of_int n" "s * of_int n - s < x"
    using assms(1) by (simp_all add: field_simps)
  moreover have "fmod x s = x - s * of_int n"
    using q by (simp add: fmod_def n_def)
  ultimately show ?thesis by linarith
qed

lemma fmod_small_neg:
  assumes "0 < s" "x < 0" "- s < x"
  shows "fmod x s = x"
proof -
  have q: "\<not> 0 \<le> x / s" using assms by (simp add: divide_less_0_iff not_le)
  have "- 1 < x / s" using assms by (simp add: field_simps)
  moreover have "x / s < 0" using q by simp
  ultimately have "\<lceil>x / s\<rceil> = 0" by (simp add: ceiling_eq_iff)
  then show ?thesis using q by (simp add: fmod_def)
qed

lemma fmod_multiple: "\<exists>n :: int. fmod x s = x - s * of_int n"
  unfolding fmod_def by blast

lemma msPerDay_inverse: "- 1 / rat_of_int msPerDay \<le> - (2 powi (- 27))"
  by code_simp

lemma normalised_day:
  fixes k :: int
  defines "x \<equiv> fdiv (of_int k) (of_int msPerDay)"
  defines "r \<equiv> fmod x synodicMonth"
  shows "0 \<le> (if r < 0 then fadd r synodicMonth else r)
       \<and> (if r < 0 then fadd r synodicMonth else r) < synodicMonth"
proof -
  define s where "s = synodicMonth"
  define g :: rat where "g = 2 powi (- 48)"
  have g: "0 < g" by (simp add: g_def)
  have sg: "s = of_int 8312121758140212 * g"
    by (simp only: s_def g_def synodicMonth_grid)
  have s16: "16 < s" by (simp only: s_def synodicMonth_gt_16)
  then have s: "0 < s" by simp
  have r: "r = fmod x s" by (simp add: r_def s_def)
  show ?thesis
  proof (cases "r < 0")
    case False
    have "r < s"
    proof (cases "0 \<le> x")
      case True
      then show ?thesis using fmod_nonneg [OF s True] by (simp add: r)
    next
      case False
      then have "x < 0" by simp
      then show ?thesis using fmod_neg [OF s, of x] s by (simp add: r)
    qed
    with False show ?thesis by (simp add: s_def)
  next
    case True
    have xn: "x < 0"
    proof (rule ccontr)
      assume "\<not> x < 0"
      then have "0 \<le> x" by simp
      then have "0 \<le> r" using fmod_nonneg [OF s] by (simp add: r)
      with True show False by simp
    qed
    have lo: "- s < r" using fmod_neg [OF s xn] by (simp add: r)
    have up: "r + s \<le> of_int 8312121758140211 * g"
    proof (cases "x \<le> - 16")
      case True
      then have "16 \<le> \<bar>fl (of_int k / of_int msPerDay)\<bar>"
        by (simp add: x_def fdiv_def)
      then obtain j where "fl (of_int k / of_int msPerDay) = of_int j * 2 powi (- 48)"
        using fl_on_grid by blast
      then have xj: "x = of_int j * g"
        by (simp add: x_def fdiv_def g_def)
      obtain n :: int where "r = x - s * of_int n"
        using fmod_multiple [of x s] r by auto
      then have rj: "r = of_int (j - 8312121758140212 * n) * g"
        by (simp add: xj sg algebra_simps)
      have "of_int (j - 8312121758140212 * n) * g < 0"
        using \<open>r < 0\<close> by (simp only: rj)
      then have "(of_int (j - 8312121758140212 * n) :: rat) < 0"
        using g by (simp add: mult_less_0_iff)
      then have "j - 8312121758140212 * n \<le> - 1" by simp
      then have "(of_int (j - 8312121758140212 * n) :: rat) \<le> of_int (- 1)"
        by (simp only: of_int_le_iff)
      then have "of_int (j - 8312121758140212 * n) * g \<le> of_int (- 1) * g"
        using g by (intro mult_right_mono) simp_all
      then have "r \<le> - g" by (simp add: rj)
      then show ?thesis by (simp add: sg algebra_simps)
    next
      case False
      then have "- s < x" using s16 by simp
      then have rx: "r = x"
        using fmod_small_neg [OF s xn] by (simp add: r)
      have "of_int k / rat_of_int msPerDay < 0"
      proof (rule ccontr)
        assume "\<not> of_int k / rat_of_int msPerDay < 0"
        then have "0 \<le> fl (of_int k / rat_of_int msPerDay)"
          by (intro fl_nonneg) simp
        with xn show False by (simp add: x_def fdiv_def)
      qed
      moreover have m: "0 < rat_of_int msPerDay" by (simp add: msPerDay_def)
      ultimately have "(of_int k :: rat) < 0"
        by (simp add: divide_less_0_iff)
      then have "k \<le> - 1" by simp
      then have "(of_int k :: rat) \<le> - 1" by (metis of_int_le_iff of_int_minus of_int_1)
      then have "of_int k / rat_of_int msPerDay \<le> - 1 / rat_of_int msPerDay"
        using m by (intro divide_right_mono) simp_all
      then have "of_int k / rat_of_int msPerDay \<le> - (2 powi (- 27))"
        using msPerDay_inverse by linarith
      then have "x \<le> - (2 powi (- 27))"
        unfolding x_def fdiv_def by (rule fl_neg_bound)
      moreover have "g \<le> (2 :: rat) powi (- 27)"
        unfolding g_def by (rule pow2_mono) simp
      ultimately have "r \<le> - g" using rx by linarith
      then show ?thesis by (simp add: sg algebra_simps)
    qed
    have pos: "0 < r + s" using lo by simp
    have "fl (r + s) \<le> of_int 8312121758140211 * 2 powi (- 48)"
      using pos up unfolding g_def by (rule fl_le_grid) simp
    moreover have "of_int 8312121758140211 * g < s"
      using g by (simp add: sg)
    ultimately have "fl (r + s) < s" by (simp add: g_def)
    moreover have "0 \<le> fl (r + s)"
      using pos by (intro fl_nonneg) simp
    ultimately show ?thesis
      using True by (simp add: fadd_def s_def)
  qed
qed

lemma getMoonPhase_lunarDay:
  "0 \<le> lunarDay (getMoonPhase M z d) \<and> lunarDay (getMoonPhase M z d) < synodicMonth"
proof -
  obtain k where k: "fl (of_int (getTime z d - newDateTime z 2000 0 6 18 14 0)) = of_int k"
    using fl_of_int by blast
  have "lunarDay (getMoonPhase M z d) =
      (if fmod (fdiv (of_int k) (of_int msPerDay)) synodicMonth < 0
       then fadd (fmod (fdiv (of_int k) (of_int msPerDay)) synodicMonth) synodicMonth
       else fmod (fdiv (of_int k) (of_int msPerDay)) synodicMonth)"
    using k by (simp add: getMoonPhase_def Let_def split_def fsub_def)
  then show ?thesis
    using normalised_day [of k] by simp
qed

lemma getMoonPhase_phase_eq:
  "phase (getMoonPhase M z d) =
     (if lunarDay (getMoonPhase M z d) < fmul (fdiv synodicMonth 8) (1 / 2) then 0
      else if lunarDay (getMoonPhase M z d) < fmul (fdiv synodicMonth 8) (3 / 2) then 1
      else if lunarDay (getMoonPhase M z d) < fmul (fdiv synodicMonth 8) (5 / 2) then 2
      else if lunarDay (getMoonPhase M z d) < fmul (fdiv synodicMonth 8) (7 / 2) then 3
      else if lunarDay (getMoonPhase M z d) < fmul (fdiv synodicMonth 8) (9 / 2) then 4
      else if lunarDay (getMoonPhase M z d) < fmul (fdiv synodicMonth 8) (11 / 2) then 5
      else if lunarDay (getMoonPhase M z d) < fmul (fdiv synodicMonth 8) (13 / 2) then 6
      else if lunarDay (getMoonPhase M z d) < fmul (fdiv synodicMonth 8) (15 / 2) then 7
      else 0)"
  by (simp add: getMoonPhase_def Let_def split_def)

lemma getMoonPhase_phase:
  "0 \<le> phase (getMoonPhase M z d) \<and> phase (getMoonPhase M z d) \<le> 7"
  by (simp add: getMoonPhase_phase_eq)

lemma synodicMonth_value: "synodicMonth = 2078030439535053 / 70368744177664"
  by code_simp

lemma phaseLength_value: "fdiv (2078030439535053 / 70368744177664) 8 = 2078030439535053 / 562949953421312"
  by code_simp

lemma threshold_3: "fmul (2078030439535053 / 562949953421312) (3 / 2) = 6234091318605159 / 1125899906842624"
  by code_simp

lemma threshold_5: "fmul (2078030439535053 / 562949953421312) (5 / 2) = 40586532022169 / 4398046511104"
  by code_simp

lemma threshold_7: "fmul (2078030439535053 / 562949953421312) (7 / 2) = 3636553269186343 / 281474976710656"
  by code_simp

lemma threshold_9: "fmul (2078030439535053 / 562949953421312) (9 / 2) = 4675568488953869 / 281474976710656"
  by code_simp

lemma threshold_11: "fmul (2078030439535053 / 562949953421312) (11 / 2) = 1428645927180349 / 70368744177664"
  by code_simp

lemma threshold_13: "fmul (2078030439535053 / 562949953421312) (13 / 2) = 3376799464244461 / 140737488355328"
  by code_simp

lemma threshold_15: "fmul (2078030439535053 / 562949953421312) (15 / 2) = 7792614148256449 / 281474976710656"
  by code_simp

lemma thresholds_increasing:
  "fmul (fdiv synodicMonth 8) (3 / 2) \<le> fmul (fdiv synodicMonth 8) (15 / 2)"
  "fmul (fdiv synodicMonth 8) (5 / 2) \<le> fmul (fdiv synodicMonth 8) (15 / 2)"
  "fmul (fdiv synodicMonth 8) (7 / 2) \<le> fmul (fdiv synodicMonth 8) (15 / 2)"
  "fmul (fdiv synodicMonth 8) (9 / 2) \<le> fmul (fdiv synodicMonth 8) (15 / 2)"
  "fmul (fdiv synodicMonth 8) (11 / 2) \<le> fmul (fdiv synodicMonth 8) (15 / 2)"
  "fmul (fdiv synodicMonth 8) (13 / 2) \<le> fmul (fdiv synodicMonth 8) (15 / 2)"
  unfolding synodicMonth_value phaseLength_value threshold_3 threshold_5 threshold_7
    threshold_9 threshold_11 threshold_13 threshold_15
  by simp_all

lemma getMoonPhase_wrap:
  assumes "fmul (fdiv synodicMonth 8) (15 / 2) \<le> lunarDay (getMoonPhase M z d)"
  shows "phase (getMoonPhase M z d) = 0"
proof -
  define l where "l = lunarDay (getMoonPhase M z d)"
  have "\<not> l < fmul (fdiv synodicMonth 8) (3 / 2)"
    "\<not> l < fmul (fdiv synodicMonth 8) (5 / 2)"
    "\<not> l < fmul (fdiv synodicMonth 8) (7 / 2)"
    "\<not> l < fmul (fdiv synodicMonth 8) (9 / 2)"
    "\<not> l < fmul (fdiv synodicMonth 8) (11 / 2)"
    "\<not> l < fmul (fdiv synodicMonth 8) (13 / 2)"
    "\<not> l < fmul (fdiv synodicMonth 8) (15 / 2)"
    using assms thresholds_increasing unfolding l_def by linarith+
  then show ?thesis
    unfolding getMoonPhase_phase_eq l_def [symmetric] by simp
qed

lemma getMoonPhase_isSignificant:
  "isSignificant (getMoonPhase M z d) \<longleftrightarrow>
     phase (getMoonPhase M z d) = 0 \<or> phase (getMoonPhase M z d) = 2
     \<or> phase (getMoonPhase M z d) = 4 \<or> phase (getMoonPhase M z d) = 6"
  by (simp add: getMoonPhase_def Let_def split_def)

lemma getMoonPhase_lunarDay_eq:
  "lunarDay (getMoonPhase M z d) =
     (if fmod (fdiv (fsub (of_int (getTime z d)) (of_int (newDateTime z 2000 0 6 18 14 0)))
                (of_int msPerDay)) synodicMonth < 0
      then fadd (fmod (fdiv (fsub (of_int (getTime z d))
                  (of_int (newDateTime z 2000 0 6 18 14 0))) (of_int msPerDay)) synodicMonth)
             synodicMonth
      else fmod (fdiv (fsub (of_int (getTime z d)) (of_int (newDateTime z 2000 0 6 18 14 0)))
                (of_int msPerDay)) synodicMonth)"
  by (simp add: getMoonPhase_def Let_def split_def)

lemma lunarDay_6_January_2000:
  "lunarDay (getMoonPhase M utc (newDate 2000 0 6)) = 2024569740833411 / 70368744177664"
proof -
  have 1: "getTime utc (newDate 2000 0 6) = 947116800000" by code_simp
  have 2: "newDateTime utc 2000 0 6 18 14 0 = 947182440000" by code_simp
  have 3: "fsub 947116800000 947182440000 = - 65640000" by code_simp
  have 4: "fdiv (- 65640000) 86400000 = - (3421484716905085 / 4503599627370496)" by code_simp
  have 5: "fmod (- (3421484716905085 / 4503599627370496)) (2078030439535053 / 70368744177664)
      = - (3421484716905085 / 4503599627370496)"
    by (rule fmod_small_neg) simp_all
  have 6: "fadd (- (3421484716905085 / 4503599627370496)) (2078030439535053 / 70368744177664)
      = 2024569740833411 / 70368744177664" by code_simp
  show ?thesis
    unfolding getMoonPhase_lunarDay_eq 1 2
    by (simp add: 3 4 5 6 msPerDay_def synodicMonth_value)
qed

text \<open>
  C9: the result of \<^verbatim>\<open>getMoonPhase\<close> is well formed. The lunar day is at least 0 and less
  than the synodic month, also after a negative remainder has been moved up by one synodic
  month and rounded; the phase is an index from 0 to 7; a lunar day at or beyond 7.5 band
  widths is the new moon again (phase 0); and \<^verbatim>\<open>isSignificant\<close> holds exactly for the
  phases 0, 2, 4 and 6. This holds for every implementation of \<^verbatim>\<open>Math.cos\<close>, every time
  zone and every day.
\<close>

theorem getMoonPhase_well_formed:
  "0 \<le> lunarDay (getMoonPhase M z d)
   \<and> lunarDay (getMoonPhase M z d) < synodicMonth
   \<and> 0 \<le> phase (getMoonPhase M z d)
   \<and> phase (getMoonPhase M z d) \<le> 7
   \<and> (fmul (fdiv synodicMonth 8) (15 / 2) \<le> lunarDay (getMoonPhase M z d)
        \<longrightarrow> phase (getMoonPhase M z d) = 0)
   \<and> (isSignificant (getMoonPhase M z d) \<longleftrightarrow>
        phase (getMoonPhase M z d) = 0 \<or> phase (getMoonPhase M z d) = 2
        \<or> phase (getMoonPhase M z d) = 4 \<or> phase (getMoonPhase M z d) = 6)"
  using getMoonPhase_lunarDay [of M z d] getMoonPhase_phase [of M z d]
    getMoonPhase_wrap [of M z d] getMoonPhase_isSignificant [of M z d]
  by blast

theorem getMoonPhase_well_formed_witness:
  "fmul (fdiv synodicMonth 8) (15 / 2)
     \<le> lunarDay (getMoonPhase \<lparr>Math_sin = (\<lambda>x. 0), Math_cos = (\<lambda>x. 1),
            Math_tan = (\<lambda>x. 0), Math_acos = (\<lambda>x. 0)\<rparr> utc (newDate 2000 0 6))
   \<and> phase (getMoonPhase \<lparr>Math_sin = (\<lambda>x. 0), Math_cos = (\<lambda>x. 1),
            Math_tan = (\<lambda>x. 0), Math_acos = (\<lambda>x. 0)\<rparr> utc (newDate 2000 0 6)) = 0"
proof -
  have h: "fmul (fdiv synodicMonth 8) (15 / 2)
     \<le> lunarDay (getMoonPhase \<lparr>Math_sin = (\<lambda>x. 0), Math_cos = (\<lambda>x. 1),
            Math_tan = (\<lambda>x. 0), Math_acos = (\<lambda>x. 0)\<rparr> utc (newDate 2000 0 6))"
    unfolding lunarDay_6_January_2000 synodicMonth_value phaseLength_value threshold_15
    by simp
  with getMoonPhase_well_formed [of "\<lparr>Math_sin = (\<lambda>x. 0), Math_cos = (\<lambda>x. 1),
            Math_tan = (\<lambda>x. 0), Math_acos = (\<lambda>x. 0)\<rparr>" utc "newDate 2000 0 6"]
  show ?thesis by blast
qed

section \<open>The length of the day: continuous day and continuous night\<close>

lemma rounded_24: "fdiv (of_int (Math_round (fmul 24 100))) 100 = 24"
  by code_simp

lemma rounded_0: "fdiv (of_int (Math_round (fmul 0 100))) 100 = 0"
  by code_simp

lemma getDayLength_day:
  assumes "cosHourAngleOn M (dayOfYearOf z d t) < - 1"
  shows "dayLengthHours (getDayLength M z d t) = 24"
    and "sunrise (getDayLength M z d t) = None"
    and "sunset (getDayLength M z d t) = None"
  using assms by (simp_all add: getDayLength_def Let_def split_def rounded_24)

lemma getDayLength_night:
  assumes "1 < cosHourAngleOn M (dayOfYearOf z d t)"
  shows "dayLengthHours (getDayLength M z d t) = 0"
    and "sunrise (getDayLength M z d t) = None"
    and "sunset (getDayLength M z d t) = None"
  using assms by (simp_all add: getDayLength_def Let_def split_def rounded_0)

lemma getDayLength_ordinary:
  assumes "- 1 \<le> cosHourAngleOn M (dayOfYearOf z d t)" "cosHourAngleOn M (dayOfYearOf z d t) \<le> 1"
  shows "sunrise (getDayLength M z d t) \<noteq> None"
    and "sunset (getDayLength M z d t) \<noteq> None"
  using assms by (simp_all add: getDayLength_def Let_def split_def)


lemma fl_0: "fl 0 = 0"
  by (simp add: fl_def)

lemma cosHourAngleOn_tan_2:
  "cosHourAngleOn \<lparr>Math_sin = (\<lambda>x. 0), Math_cos = (\<lambda>x. 1), Math_tan = (\<lambda>x. 2),
       Math_acos = (\<lambda>x. 0)\<rparr> n = - 4"
proof -
  have "fmul (- 2) 2 = - 4" by code_simp
  then show ?thesis by (simp add: cosHourAngleOn_def)
qed

lemma cosHourAngleOn_tan_step:
  "cosHourAngleOn \<lparr>Math_sin = (\<lambda>x. 0), Math_cos = (\<lambda>x. 1),
       Math_tan = (\<lambda>x. if x < 1 / 2 then - 2 else 2), Math_acos = (\<lambda>x. 0)\<rparr> n = 4"
proof -
  have 1: "toRad latitude = 8097235413085103 / 9007199254740992" by code_simp
  have 2: "declinationOn \<lparr>Math_sin = (\<lambda>x. 0), Math_cos = (\<lambda>x. 1),
       Math_tan = (\<lambda>x. if x < 1 / 2 then - 2 else 2), Math_acos = (\<lambda>x. 0)\<rparr> n = 0"
    by (simp add: declinationOn_def toRad_def fmul_def fdiv_def fl_0)
  have 3: "fmul (- 2) (- 2) = 4" by code_simp
  show ?thesis
    unfolding cosHourAngleOn_def 1 2 by (simp add: 3)
qed

text \<open>
  C8: \<^verbatim>\<open>getDayLength\<close> has no failing path: it is a total function whose result is always
  a \<open>DayLengthInfo\<close>. When the cosine of the hour angle is below -1 the result has
  \<^verbatim>\<open>dayLengthHours\<close> 24 and no sunrise and no sunset (\<^verbatim>\<open>null\<close>, here \<open>None\<close>); when it is
  above 1 the result has \<^verbatim>\<open>dayLengthHours\<close> 0 and no sunrise and no sunset. This holds for
  every implementation of the \<^verbatim>\<open>Math\<close> functions, every time zone and every date.
\<close>

theorem getDayLength_polar:
  "(cosHourAngleOn M (dayOfYearOf z d t) < - 1 \<longrightarrow>
      dayLengthHours (getDayLength M z d t) = 24
      \<and> sunrise (getDayLength M z d t) = None \<and> sunset (getDayLength M z d t) = None)
   \<and> (1 < cosHourAngleOn M (dayOfYearOf z d t) \<longrightarrow>
      dayLengthHours (getDayLength M z d t) = 0
      \<and> sunrise (getDayLength M z d t) = None \<and> sunset (getDayLength M z d t) = None)"
  using getDayLength_day [of M z d t] getDayLength_night [of M z d t] by blast

theorem getDayLength_polar_witness:
  "cosHourAngleOn \<lparr>Math_sin = (\<lambda>x. 0), Math_cos = (\<lambda>x. 1), Math_tan = (\<lambda>x. 2),
       Math_acos = (\<lambda>x. 0)\<rparr> (dayOfYearOf utc (newDate 2025 5 21) 0) < - 1
   \<and> dayLengthHours (getDayLength \<lparr>Math_sin = (\<lambda>x. 0), Math_cos = (\<lambda>x. 1),
       Math_tan = (\<lambda>x. 2), Math_acos = (\<lambda>x. 0)\<rparr> utc (newDate 2025 5 21) 0) = 24
   \<and> sunrise (getDayLength \<lparr>Math_sin = (\<lambda>x. 0), Math_cos = (\<lambda>x. 1),
       Math_tan = (\<lambda>x. 2), Math_acos = (\<lambda>x. 0)\<rparr> utc (newDate 2025 5 21) 0) = None
   \<and> 1 < cosHourAngleOn \<lparr>Math_sin = (\<lambda>x. 0), Math_cos = (\<lambda>x. 1),
       Math_tan = (\<lambda>x. if x < 1 / 2 then - 2 else 2),
       Math_acos = (\<lambda>x. 0)\<rparr> (dayOfYearOf utc (newDate 2025 5 21) 0)
   \<and> dayLengthHours (getDayLength \<lparr>Math_sin = (\<lambda>x. 0), Math_cos = (\<lambda>x. 1),
       Math_tan = (\<lambda>x. if x < 1 / 2 then - 2 else 2),
       Math_acos = (\<lambda>x. 0)\<rparr> utc (newDate 2025 5 21) 0) = 0
   \<and> sunset (getDayLength \<lparr>Math_sin = (\<lambda>x. 0), Math_cos = (\<lambda>x. 1),
       Math_tan = (\<lambda>x. if x < 1 / 2 then - 2 else 2),
       Math_acos = (\<lambda>x. 0)\<rparr> utc (newDate 2025 5 21) 0) = None"
proof -
  have 1: "cosHourAngleOn \<lparr>Math_sin = (\<lambda>x. 0), Math_cos = (\<lambda>x. 1), Math_tan = (\<lambda>x. 2),
       Math_acos = (\<lambda>x. 0)\<rparr> (dayOfYearOf utc (newDate 2025 5 21) 0) < - 1"
    unfolding cosHourAngleOn_tan_2 by simp
  have 2: "1 < cosHourAngleOn \<lparr>Math_sin = (\<lambda>x. 0), Math_cos = (\<lambda>x. 1),
       Math_tan = (\<lambda>x. if x < 1 / 2 then - 2 else 2),
       Math_acos = (\<lambda>x. 0)\<rparr> (dayOfYearOf utc (newDate 2025 5 21) 0)"
    unfolding cosHourAngleOn_tan_step by simp
  show ?thesis
    using 1 2
      getDayLength_polar [of "\<lparr>Math_sin = (\<lambda>x. 0), Math_cos = (\<lambda>x. 1), Math_tan = (\<lambda>x. 2),
       Math_acos = (\<lambda>x. 0)\<rparr>" utc "newDate 2025 5 21" 0]
      getDayLength_polar [of "\<lparr>Math_sin = (\<lambda>x. 0), Math_cos = (\<lambda>x. 1),
       Math_tan = (\<lambda>x. if x < 1 / 2 then - 2 else 2),
       Math_acos = (\<lambda>x. 0)\<rparr>" utc "newDate 2025 5 21" 0]
    by blast
qed

section \<open>Easter Sunday: the two reference years\<close>

text \<open>
  C6: \<^verbatim>\<open>getEasterSunday(2024)\<close> is 31 March 2024 and \<^verbatim>\<open>getEasterSunday(2025)\<close> is
  20 April 2025 (months count from 0, so March is 2 and April is 3); both are Sundays.
\<close>

theorem getEasterSunday_2024_2025:
  "getEasterSunday 2024 = newDate 2024 2 31
   \<and> getFullYear (getEasterSunday 2024) = 2024
   \<and> getMonth (getEasterSunday 2024) = 2
   \<and> getDate (getEasterSunday 2024) = 31
   \<and> getDay (getEasterSunday 2024) = 0
   \<and> getEasterSunday 2025 = newDate 2025 3 20
   \<and> getFullYear (getEasterSunday 2025) = 2025
   \<and> getMonth (getEasterSunday 2025) = 3
   \<and> getDate (getEasterSunday 2025) = 20
   \<and> getDay (getEasterSunday 2025) = 0"
  by code_simp

end
